theory Spec2Isabelle
  imports Complex_Main "HOL-Library.Word"
begin

section \<open>The C++ type double\<close>

text \<open>
  A \<^verbatim>\<open>double\<close> is an IEEE 754 binary64 number: a real number of the form \<open>n \<sqdot> 2\<^sup>j\<close>
  with \<open>\<bar>n\<bar> < 2\<^sup>5\<^sup>3\<close> and \<open>-1074 \<le> j\<close>, or one of the three special values. The result
  of an arithmetic operation on finite values is the exact result rounded to the nearest
  such number, ties to the even one, with gradual underflow and with overflow to an
  infinity (\<open>round64\<close>). The special values follow the IEEE rules: an invalid operation
  gives NaN, a nonzero number divided by zero gives an infinity, every comparison with
  NaN is false. Every operation rounds once: no extended precision and no fused
  multiply-add. The sign of zero is not modelled, and a zero divisor counts as positive
  zero.
\<close>

datatype double = Fin real | PInf | NInf | NaN

fun isFinite :: "double \<Rightarrow> bool" where
  "isFinite (Fin x) = True"
| "isFinite PInf = False"
| "isFinite NInf = False"
| "isFinite NaN = False"

fun infOfSign :: "real \<Rightarrow> double" where
  "infOfSign s = (if 0 < s then PInf else if s < 0 then NInf else NaN)"

text \<open>Rounding of a real to the nearest integer, ties to the even one.\<close>

definition rhe :: "real \<Rightarrow> int" where
  "rhe q =
     (let f = \<lfloor>q\<rfloor>
      in if q - of_int f < 1/2 then f
         else if 1/2 < q - of_int f then f + 1
         else if even f then f else f + 1)"

text \<open>
  The spacing of the binary64 numbers around \<open>x\<close> is \<open>2\<close> to the power \<open>ulpExp x\<close>:
  52 binary places below the leading bit of \<open>x\<close>, and never below \<open>2\<^sup>-\<^sup>1\<^sup>0\<^sup>7\<^sup>4\<close>.
\<close>

definition ulpExp :: "real \<Rightarrow> int" where
  "ulpExp x = max \<lfloor>log 2 \<bar>x\<bar>\<rfloor> (- 1022) - 52"

definition ulp :: "real \<Rightarrow> real" where
  "ulp x = 2 powr of_int (ulpExp x)"

definition roundReal :: "real \<Rightarrow> real" where
  "roundReal x = (if x = 0 then 0 else of_int (rhe (x / ulp x)) * ulp x)"

definition round64 :: "real \<Rightarrow> double" where
  "round64 x =
     (let y = roundReal x
      in if 2 ^ 1024 \<le> \<bar>y\<bar> then (if 0 < x then PInf else NInf) else Fin y)"

instantiation double :: uminus
begin
fun uminus_double :: "double \<Rightarrow> double" where
  "uminus_double (Fin x) = Fin (- x)"
| "uminus_double PInf = NInf"
| "uminus_double NInf = PInf"
| "uminus_double NaN = NaN"
instance ..
end

instantiation double :: plus
begin
fun plus_double :: "double \<Rightarrow> double \<Rightarrow> double" where
  "plus_double (Fin x) (Fin y) = round64 (x + y)"
| "plus_double NaN b = NaN"
| "plus_double a NaN = NaN"
| "plus_double PInf NInf = NaN"
| "plus_double NInf PInf = NaN"
| "plus_double PInf b = PInf"
| "plus_double a PInf = PInf"
| "plus_double NInf b = NInf"
| "plus_double a NInf = NInf"
instance ..
end

instantiation double :: minus
begin
definition minus_double :: "double \<Rightarrow> double \<Rightarrow> double" where
  "minus_double a b = a + (- b)"
instance ..
end

instantiation double :: times
begin
fun times_double :: "double \<Rightarrow> double \<Rightarrow> double" where
  "times_double (Fin x) (Fin y) = round64 (x * y)"
| "times_double NaN b = NaN"
| "times_double a NaN = NaN"
| "times_double (Fin x) PInf = infOfSign x"
| "times_double (Fin x) NInf = infOfSign (- x)"
| "times_double PInf (Fin y) = infOfSign y"
| "times_double NInf (Fin y) = infOfSign (- y)"
| "times_double PInf PInf = PInf"
| "times_double NInf NInf = PInf"
| "times_double PInf NInf = NInf"
| "times_double NInf PInf = NInf"
instance ..
end

instantiation double :: inverse
begin
fun divide_double :: "double \<Rightarrow> double \<Rightarrow> double" where
  "divide_double (Fin x) (Fin y) = (if y = 0 then infOfSign x else round64 (x / y))"
| "divide_double NaN b = NaN"
| "divide_double a NaN = NaN"
| "divide_double (Fin x) PInf = Fin 0"
| "divide_double (Fin x) NInf = Fin 0"
| "divide_double PInf (Fin y) = (if 0 \<le> y then PInf else NInf)"
| "divide_double NInf (Fin y) = (if 0 \<le> y then NInf else PInf)"
| "divide_double PInf b = NaN"
| "divide_double NInf b = NaN"
definition inverse_double :: "double \<Rightarrow> double" where
  "inverse_double b = divide (Fin 1) b"
instance ..
end

instantiation double :: ord
begin
fun less_eq_double :: "double \<Rightarrow> double \<Rightarrow> bool" where
  "less_eq_double (Fin x) (Fin y) = (x \<le> y)"
| "less_eq_double NaN b = False"
| "less_eq_double a NaN = False"
| "less_eq_double NInf b = True"
| "less_eq_double a PInf = True"
| "less_eq_double a NInf = False"
| "less_eq_double PInf b = False"
fun less_double :: "double \<Rightarrow> double \<Rightarrow> bool" where
  "less_double (Fin x) (Fin y) = (x < y)"
| "less_double NaN b = False"
| "less_double a NaN = False"
| "less_double PInf b = False"
| "less_double a NInf = False"
| "less_double NInf b = True"
| "less_double a PInf = True"
instance ..
end

section \<open>The functions of the C library\<close>

text \<open>
  \<^verbatim>\<open>sqrt\<close> is correctly rounded, \<^verbatim>\<open>fabs\<close> is exact, and \<^verbatim>\<open>modf(x, &intpart)\<close> returns
  the fractional part of \<open>x\<close> exactly, with the sign of \<open>x\<close>; the integral part it stores
  is never read by the program. The fractional part of an infinity is zero.
\<close>

fun d_sqrt :: "double \<Rightarrow> double" where
  "d_sqrt (Fin x) = (if x < 0 then NaN else round64 (sqrt x))"
| "d_sqrt PInf = PInf"
| "d_sqrt NInf = NaN"
| "d_sqrt NaN = NaN"

fun d_fabs :: "double \<Rightarrow> double" where
  "d_fabs (Fin x) = Fin \<bar>x\<bar>"
| "d_fabs PInf = PInf"
| "d_fabs NInf = PInf"
| "d_fabs NaN = NaN"

definition trunc :: "real \<Rightarrow> real" where
  "trunc x = (if 0 \<le> x then of_int \<lfloor>x\<rfloor> else of_int \<lceil>x\<rceil>)"

fun d_modf :: "double \<Rightarrow> double" where
  "d_modf (Fin x) = Fin (x - trunc x)"
| "d_modf PInf = Fin 0"
| "d_modf NInf = Fin 0"
| "d_modf NaN = NaN"

text \<open>
  \<^verbatim>\<open>sin\<close>, \<^verbatim>\<open>cos\<close>, \<^verbatim>\<open>acos\<close> and \<^verbatim>\<open>pow\<close> are not correctly rounded, and their
  results differ from one C library to another. What the library returns for a finite
  argument is a parameter of the model, the record \<open>libm\<close>, except where Annex F of the C
  standard fixes the result: \<open>sin 0 = 0\<close>, \<open>cos 0 = 1\<close>, \<open>acos 1 = 0\<close>, \<open>acos x\<close> is NaN for
  \<open>\<bar>x\<bar> > 1\<close>, \<open>pow(0, y) = 0\<close> and \<open>pow(1, y) = 1\<close> for \<open>y > 0\<close>, \<open>pow(x, y)\<close> is NaN for
  a negative \<open>x\<close> and a \<open>y\<close> that is not an integer, and the results at the special values.
\<close>

record libm =
  lm_sin :: "real \<Rightarrow> double"
  lm_cos :: "real \<Rightarrow> double"
  lm_acos :: "real \<Rightarrow> double"
  lm_pow :: "real \<Rightarrow> real \<Rightarrow> double"

fun d_sin :: "libm \<Rightarrow> double \<Rightarrow> double" where
  "d_sin lm (Fin x) = (if x = 0 then Fin 0 else lm_sin lm x)"
| "d_sin lm PInf = NaN"
| "d_sin lm NInf = NaN"
| "d_sin lm NaN = NaN"

fun d_cos :: "libm \<Rightarrow> double \<Rightarrow> double" where
  "d_cos lm (Fin x) = (if x = 0 then Fin 1 else lm_cos lm x)"
| "d_cos lm PInf = NaN"
| "d_cos lm NInf = NaN"
| "d_cos lm NaN = NaN"

fun d_acos :: "libm \<Rightarrow> double \<Rightarrow> double" where
  "d_acos lm (Fin x) =
     (if 1 < \<bar>x\<bar> then NaN else if x = 1 then Fin 0 else lm_acos lm x)"
| "d_acos lm PInf = NaN"
| "d_acos lm NInf = NaN"
| "d_acos lm NaN = NaN"

text \<open>
  \<^verbatim>\<open>pow(x, y)\<close> for the exponents the program uses: the constants 1/4, 2/4, 3/4 and
  4/4, all positive and exact in binary.
\<close>

definition isOddInt :: "real \<Rightarrow> bool" where
  "isOddInt y = (y = of_int \<lfloor>y\<rfloor> \<and> odd \<lfloor>y\<rfloor>)"

fun d_pow :: "libm \<Rightarrow> double \<Rightarrow> real \<Rightarrow> double" where
  "d_pow lm (Fin x) y =
     (if x = 0 then Fin 0
      else if x = 1 then Fin 1
      else if x < 0 \<and> y \<noteq> of_int \<lfloor>y\<rfloor> then NaN
      else lm_pow lm x y)"
| "d_pow lm PInf y = PInf"
| "d_pow lm NInf y = (if isOddInt y then NInf else PInf)"
| "d_pow lm NaN y = NaN"

section \<open>The helper functions of GenerateModel.cpp\<close>

definition square :: "double \<Rightarrow> double" where
  "square val = val * val"

text \<open>The intensity at \<open>r\<close> from four scalar coefficients (lines 69 to 79).\<close>

definition I :: "libm \<Rightarrow> double \<Rightarrow> double \<Rightarrow> double \<Rightarrow> double \<Rightarrow> double \<Rightarrow> double" where
  "I lm r c1 c2 c3 c4 =
     (let rprimed = Fin 1 - square r;
          I0 = Fin 1;
          I1 = I0 - c1 * (Fin 1 - d_pow lm rprimed (1 / 4));
          I2 = I1 - c2 * (Fin 1 - d_pow lm rprimed (2 / 4));
          I3 = I2 - c3 * (Fin 1 - d_pow lm rprimed (3 / 4));
          I4 = I3 - c4 * (Fin 1 - d_pow lm rprimed (4 / 4))
      in I4)"

text \<open>
  The summation loop of the scalar \<^verbatim>\<open>IntegratedI\<close> (lines 123 to 132). The loop runs
  while \<open>r \<le> rhigh\<close> and nothing bounds the number of its steps, so it is a partial
  function: \<open>None\<close> is a run that never leaves the loop. The accumulator \<open>acc\<close> is
  the variable \<^verbatim>\<open>sum\<close> of the source.
\<close>

partial_function (option) IntegratedI_loop ::
  "libm \<Rightarrow> double \<Rightarrow> double \<Rightarrow> double \<Rightarrow> double \<Rightarrow> double \<Rightarrow> double \<Rightarrow> double \<Rightarrow> double
     \<Rightarrow> double option"
where
  "IntegratedI_loop lm dr c1 c2 c3 c4 rhigh r acc =
     (if r \<le> rhigh
      then IntegratedI_loop lm dr c1 c2 c3 c4 rhigh (r + dr)
             (acc + I lm r c1 c2 c3 c4 * dr * Fin 2 * r)
      else Some acc)"

definition IntegratedI ::
  "libm \<Rightarrow> double \<Rightarrow> double \<Rightarrow> double \<Rightarrow> double \<Rightarrow> double \<Rightarrow> double \<Rightarrow> double \<Rightarrow> double option"
where
  "IntegratedI lm dr c1 c2 c3 c4 rlow rhigh =
     IntegratedI_loop lm dr c1 c2 c3 c4 rhigh rlow (Fin 0)"

text \<open>
  \<^verbatim>\<open>std::vector::at\<close>, here \<open>at_vec\<close>, checks its index and throws
  \<^verbatim>\<open>std::out_of_range\<close>.
\<close>

datatype error = OutOfRange

definition at_vec :: "'a list \<Rightarrow> nat \<Rightarrow> error + 'a" where
  "at_vec xs n = (if n < length xs then Inr (xs ! n) else Inl OutOfRange)"

text \<open>\<open>\<Omega>\<close>: the loop of \<^verbatim>\<open>calcOmega\<close> over \<open>n = 0, ..., 4\<close> (lines 31 to 39).\<close>

function calcOmega_loop :: "double list \<Rightarrow> nat \<Rightarrow> double \<Rightarrow> error + double" where
  "calcOmega_loop coeffs n returnval =
     (if n \<le> 4
      then (case at_vec coeffs n of
              Inl e \<Rightarrow> Inl e
            | Inr c \<Rightarrow> calcOmega_loop coeffs (n + 1) (returnval + c / (Fin (real n) + Fin 4)))
      else Inr returnval)"
  by pat_completeness auto
termination
  by (relation "measure (\<lambda>(coeffs, n, returnval). 5 - n)") auto

definition calcOmega :: "double list \<Rightarrow> error + double" where
  "calcOmega coeffs = calcOmega_loop coeffs 0 (Fin 0)"

text \<open>
  The overloads that take the coefficient vector (lines 97 to 105 and 148 to 156):
  \<open>I_vec\<close> is \<^verbatim>\<open>I(r, coeffs)\<close> and \<open>IntegratedI_vec\<close> is
  \<^verbatim>\<open>IntegratedI(dr, coeffs, rlow, rhigh)\<close>. Both read the entries 0 to 3 of the vector.
\<close>

definition I_vec :: "libm \<Rightarrow> double \<Rightarrow> double list \<Rightarrow> error + double" where
  "I_vec lm r coeffs =
     (case at_vec coeffs 0 of Inl e \<Rightarrow> Inl e | Inr c1 \<Rightarrow>
      case at_vec coeffs 1 of Inl e \<Rightarrow> Inl e | Inr c2 \<Rightarrow>
      case at_vec coeffs 2 of Inl e \<Rightarrow> Inl e | Inr c3 \<Rightarrow>
      case at_vec coeffs 3 of Inl e \<Rightarrow> Inl e | Inr c4 \<Rightarrow>
      Inr (I lm r c1 c2 c3 c4))"

text \<open>
  The result of a call that contains the summation loop: \<open>None\<close> when the loop never
  ends, \<open>Some (Inl e)\<close> when the call throws, \<open>Some (Inr v)\<close> when it returns \<open>v\<close>.
\<close>

definition IntegratedI_vec ::
  "libm \<Rightarrow> double \<Rightarrow> double list \<Rightarrow> double \<Rightarrow> double \<Rightarrow> (error + double) option"
where
  "IntegratedI_vec lm dr coeffs rlow rhigh =
     (case at_vec coeffs 0 of Inl e \<Rightarrow> Some (Inl e) | Inr c1 \<Rightarrow>
      case at_vec coeffs 1 of Inl e \<Rightarrow> Some (Inl e) | Inr c2 \<Rightarrow>
      case at_vec coeffs 2 of Inl e \<Rightarrow> Some (Inl e) | Inr c3 \<Rightarrow>
      case at_vec coeffs 3 of Inl e \<Rightarrow> Some (Inl e) | Inr c4 \<Rightarrow>
      map_option Inr (IntegratedI lm dr c1 c2 c3 c4 rlow rhigh))"

section \<open>The model parameters and the physical constants\<close>

text \<open>
  Modelled from the spec: the header \<^verbatim>\<open>Model.h\<close>, which declares the parameter record,
  is not part of the source tree. The specification lists its fields and calls them all
  real-valued: a field holds a finite number.
\<close>

record Model =
  a :: real
  rs :: real
  rp :: real
  period :: real
  epoch :: real
  i :: real
  c1 :: real
  c2 :: real
  c3 :: real
  c4 :: real

text \<open>
  Modelled from the spec: the header \<^verbatim>\<open>constants.h\<close> is not part of the source tree
  either. Its five constants are parameters of the model. \<^verbatim>\<open>M_PI\<close> is the binary64
  number nearest to \<open>\<pi>\<close>.
\<close>

record constants =
  AU :: real
  rSun :: real
  rJup :: real
  secondsInDay :: real
  radiansInDegree :: real

definition M_PI :: double where
  "M_PI = Fin (884279719003555 / 281474976710656)"

section \<open>GenerateSynthetic\<close>

text \<open>
  The values computed once, before the loop over the timestamps (lines 164 to 185). Each
  is a function of the constants and the model, and the body of the loop refers to it by
  its name in the source. The step \<^verbatim>\<open>dr = 0.001\<close> is the binary64 number nearest to
  \<open>1/1000\<close>, here \<open>dr_const\<close>.
\<close>

definition normalisedDistance :: "constants \<Rightarrow> Model \<Rightarrow> double" where
  "normalisedDistance k m = Fin (a m) * Fin (AU k) / (Fin (rs m) * Fin (rSun k))"

definition dr_const :: double where
  "dr_const = Fin (1152921504606847 / 1152921504606846976)"

definition packCoeffs :: "Model \<Rightarrow> double list" where
  "packCoeffs m =
     (let coeffs = replicate 5 (Fin 0);
          coeffs = coeffs[1 := Fin (c1 m)];
          coeffs = coeffs[2 := Fin (c2 m)];
          coeffs = coeffs[3 := Fin (c3 m)];
          coeffs = coeffs[4 := Fin (c4 m)];
          coeffs = coeffs[0 := Fin 1 - coeffs ! 1 - coeffs ! 2 - coeffs ! 3 - coeffs ! 4]
      in coeffs)"

definition angFreq :: "constants \<Rightarrow> Model \<Rightarrow> double" where
  "angFreq k m = Fin 2 * M_PI / (Fin (period m) * Fin (secondsInDay k))"

definition cosi :: "libm \<Rightarrow> constants \<Rightarrow> Model \<Rightarrow> double" where
  "cosi lm k m = d_cos lm (Fin (i m) * Fin (radiansInDegree k))"

text \<open>The local constant \<^verbatim>\<open>p\<close>, the ratio of the planet's radius to the star's.\<close>

definition pRatio :: "constants \<Rightarrow> Model \<Rightarrow> double" where
  "pRatio k m = (Fin (rp m) * Fin (rJup k)) / (Fin (rs m) * Fin (rSun k))"

text \<open>
  The body of the loop, in three parts. First the per-timestamp quantities: the seconds
  since the epoch \<open>t\<close>, the projected separation \<open>z\<close> and the folded phase (lines 190
  to 203).
\<close>

definition secondsSinceEpoch :: "constants \<Rightarrow> Model \<Rightarrow> double \<Rightarrow> double" where
  "secondsSinceEpoch k m jd_i = (jd_i - Fin (epoch m)) * Fin (secondsInDay k)"

definition separation :: "libm \<Rightarrow> constants \<Rightarrow> Model \<Rightarrow> double \<Rightarrow> double" where
  "separation lm k m t =
     (let firstTerm = square (d_sin lm (angFreq k m * t));
          secondTerm = square (cosi lm k m * d_cos lm (angFreq k m * t))
      in normalisedDistance k m * d_sqrt (firstTerm + secondTerm))"

definition foldedPhase :: "constants \<Rightarrow> Model \<Rightarrow> double \<Rightarrow> double" where
  "foldedPhase k m t =
     (let phase = d_fabs (d_modf (t / (Fin (period m) * Fin (secondsInDay k))))
      in if phase > Fin 0.5 then phase - Fin 1 else phase)"

text \<open>
  Then the choice of the regime (lines 205 to 249). Beside the outcome for the flux
  \<open>F\<close>, the model returns the list of the bounds \<open>(rlow, rhigh)\<close> of the calls to
  \<^verbatim>\<open>IntegratedI\<close> that the branch makes; the source does not store them.
\<close>

type_synonym bounds = "double \<times> double"

definition regimeFlux ::
  "libm \<Rightarrow> double \<Rightarrow> double list \<Rightarrow> double \<Rightarrow> double \<Rightarrow> double \<Rightarrow> double
     \<Rightarrow> bounds list \<times> (error + double) option"
where
  "regimeFlux lm dr coeffs omega p z phase =
     (if phase > Fin (- 0.25) \<and> phase < Fin 0.25
      then
        if z \<le> Fin 1 - p
        then
          (let norm = Fin 1 / (Fin 4 * z * p)
           in ([(z - p, z + p)],
               case IntegratedI_vec lm dr coeffs (z - p) (z + p) of
                 None \<Rightarrow> None
               | Some (Inl e) \<Rightarrow> Some (Inl e)
               | Some (Inr integral) \<Rightarrow>
                   (let integral = integral * norm
                    in Some (Inr (Fin 1 - (square p * integral / Fin 4 / omega))))))
        else if z > Fin 1 + p
        then ([], Some (Inr (Fin 1)))
        else
          (let startPoint = z - p;
               a = square startPoint;
               norm = Fin 1 / (Fin 1 - a)
           in ([(startPoint, Fin 1)],
               case IntegratedI_vec lm dr coeffs startPoint (Fin 1) of
                 None \<Rightarrow> None
               | Some (Inl e) \<Rightarrow> Some (Inl e)
               | Some (Inr integral) \<Rightarrow>
                   (let integral = integral * norm;
                        insideSqrt = square p - square (z - Fin 1);
                        sqrtVal = d_sqrt insideSqrt;
                        sqrtVal = sqrtVal * (z - Fin 1);
                        insideAcos = (z - Fin 1) / p;
                        firstTerm = square p * d_acos lm insideAcos
                    in Some (Inr (Fin 1 - (integral * (firstTerm - sqrtVal)
                                            / (Fin 4 * M_PI * omega)))))))
      else ([], Some (Inr (Fin 1))))"

definition timestampFlux ::
  "libm \<Rightarrow> constants \<Rightarrow> Model \<Rightarrow> double \<Rightarrow> double list \<Rightarrow> double \<Rightarrow> double
     \<Rightarrow> bounds list \<times> (error + double) option"
where
  "timestampFlux lm k m dr coeffs omega jd_i =
     (let t = secondsSinceEpoch k m jd_i;
          z = separation lm k m t;
          phase = foldedPhase k m t
      in regimeFlux lm dr coeffs omega (pRatio k m) z phase)"

text \<open>
  The loop over the timestamps (lines 187 to 257) with the vector \<open>Flux\<close> it appends
  to. Its counter is an \<^verbatim>\<open>unsigned int\<close>, here a 32-bit word \<open>n\<close> that wraps around,
  compared with the size of the vector, a wider \<^verbatim>\<open>size_t\<close>: with \<open>2\<^sup>3\<^sup>2\<close> timestamps or
  more the counter never reaches the size. A run that never leaves this loop or the
  summation loop of a timestamp is \<open>None\<close>.
\<close>

partial_function (option) GenerateSynthetic_loop ::
  "libm \<Rightarrow> constants \<Rightarrow> Model \<Rightarrow> double \<Rightarrow> double list \<Rightarrow> double \<Rightarrow> double list \<Rightarrow> 32 word
     \<Rightarrow> double list \<Rightarrow> (error + double list) option"
where
  "GenerateSynthetic_loop lm k m dr coeffs omega jd n Flux =
     (if unat n < length jd
      then (case at_vec jd (unat n) of
              Inl e \<Rightarrow> Some (Inl e)
            | Inr jd_i \<Rightarrow>
                (case snd (timestampFlux lm k m dr coeffs omega jd_i) of
                   None \<Rightarrow> None
                 | Some (Inl e) \<Rightarrow> Some (Inl e)
                 | Some (Inr F) \<Rightarrow>
                     GenerateSynthetic_loop lm k m dr coeffs omega jd (n + 1) (Flux @ [F])))
      else Some (Inr Flux))"

definition GenerateSynthetic ::
  "libm \<Rightarrow> constants \<Rightarrow> double list \<Rightarrow> Model \<Rightarrow> (error + double list) option"
where
  "GenerateSynthetic lm k jd m =
     (let dr = dr_const;
          coeffs = packCoeffs m
      in case calcOmega coeffs of
           Inl e \<Rightarrow> Some (Inl e)
         | Inr omega \<Rightarrow> GenerateSynthetic_loop lm k m dr coeffs omega jd 0 [])"

section \<open>Sample inputs\<close>

text \<open>
  Concrete inputs at which the theorems below are evaluated. The sample model is a
  Jupiter-sized planet on a three-day orbit seen edge-on around a Sun-sized star without
  limb darkening (all four coefficients zero). The central model has the semi-major axis
  zero, which puts the planet on the centre of the star at every time; it is seen
  face-on, has a planet of one eighth of the star's radius and a period of two days. The
  unit constants are constants in units that make them all 1. The rounded library
  returns the exact value of each function, correctly rounded. The darkened model is
  the sample model with the coefficients \<open>0.1, 0.1, 0.2, 0.1\<close>, each the binary64 number
  nearest to it.
\<close>

definition sampleModel :: Model where
  "sampleModel = \<lparr>a = 1/20, rs = 1, rp = 1, period = 3, epoch = 2455000, i = 90,
                   c1 = 0, c2 = 0, c3 = 0, c4 = 0\<rparr>"

definition centralModel :: Model where
  "centralModel = \<lparr>a = 0, rs = 1, rp = 1/8, period = 2, epoch = 0, i = 0,
                    c1 = 0, c2 = 0, c3 = 0, c4 = 0\<rparr>"


definition unitConstants :: constants where
  "unitConstants = \<lparr>AU = 1, rSun = 1, rJup = 1, secondsInDay = 1, radiansInDegree = 1\<rparr>"

definition roundedLibm :: libm where
  "roundedLibm =
     \<lparr>lm_sin = (\<lambda>x. round64 (sin x)),
      lm_cos = (\<lambda>x. round64 (cos x)),
      lm_acos = (\<lambda>x. round64 (arccos x)),
      lm_pow = (\<lambda>x y. round64 (if 0 \<le> x then x powr y else x ^ nat \<lfloor>y\<rfloor>))\<rparr>"

section \<open>Rounding to binary64\<close>

lemma rhe_of_int [simp]: "rhe (of_int n) = n"
  by (simp add: rhe_def)

lemma rhe_error: "\<bar>of_int (rhe q) - q\<bar> \<le> 1/2"
  unfolding rhe_def Let_def by (auto simp: abs_if; linarith)

lemma rhe_range: "\<lfloor>q\<rfloor> \<le> rhe q \<and> rhe q \<le> \<lfloor>q\<rfloor> + 1"
  by (simp add: rhe_def Let_def)

lemma rhe_mono: "q1 \<le> q2 \<Longrightarrow> rhe q1 \<le> rhe q2"
proof -
  assume le: "q1 \<le> q2"
  then have f: "\<lfloor>q1\<rfloor> \<le> \<lfloor>q2\<rfloor>" by (rule floor_mono)
  show ?thesis
  proof (cases "\<lfloor>q1\<rfloor> = \<lfloor>q2\<rfloor>")
    case True
    then show ?thesis using le unfolding rhe_def Let_def by auto
  next
    case False
    with f have "\<lfloor>q1\<rfloor> + 1 \<le> \<lfloor>q2\<rfloor>" by simp
    with rhe_range[of q1] rhe_range[of q2] show ?thesis by linarith
  qed
qed

lemma rhe_uminus: "rhe (- q) = - rhe q"
proof (cases "q = of_int \<lfloor>q\<rfloor>")
  case True
  then obtain n where "q = of_int n" by blast
  then show ?thesis by (simp flip: of_int_minus)
next
  case False
  then have fl: "\<lfloor>- q\<rfloor> = - \<lfloor>q\<rfloor> - 1"
    by (simp add: floor_minus ceiling_altdef)
  show ?thesis unfolding rhe_def Let_def fl by auto
qed

lemma rhe_ge_int: "of_int n \<le> q \<Longrightarrow> n \<le> rhe q"
  using rhe_mono[of "of_int n" q] by simp

lemma rhe_le_int: "q \<le> of_int n \<Longrightarrow> rhe q \<le> n"
  using rhe_mono[of q "of_int n"] by simp


lemma ulp_pos [simp]: "0 < ulp x"
  by (simp add: ulp_def)

lemma ulp_nonneg [simp]: "0 \<le> ulp x"
  by (simp add: ulp_def)

lemma ulp_uminus [simp]: "ulp (- x) = ulp x"
  by (simp add: ulp_def ulpExp_def)

lemma roundReal_uminus: "roundReal (- x) = - roundReal x"
  by (simp add: roundReal_def rhe_uminus)

lemma round64_uminus: "round64 (- x) = - round64 x"
proof (cases "x = 0")
  case True
  then show ?thesis by (simp add: round64_def roundReal_def)
next
  case False
  then show ?thesis by (auto simp: round64_def roundReal_uminus Let_def)
qed

lemma abs_scale: "0 < u \<Longrightarrow> \<bar>c - x / u\<bar> * u = \<bar>c * u - x\<bar>" for c x u :: real
proof -
  assume u: "0 < u"
  then have "(c - x / u) * u = c * u - x" by (simp add: field_simps)
  then have "\<bar>c * u - x\<bar> = \<bar>(c - x / u) * u\<bar>" by simp
  also have "\<dots> = \<bar>c - x / u\<bar> * \<bar>u\<bar>" by (rule abs_mult)
  finally show ?thesis using u by simp
qed

lemma roundReal_error: "\<bar>roundReal x - x\<bar> \<le> ulp x / 2"
proof (cases "x = 0")
  case True
  then show ?thesis by (simp add: roundReal_def)
next
  case False
  have "\<bar>of_int (rhe (x / ulp x)) - x / ulp x\<bar> \<le> 1/2" by (rule rhe_error)
  then have "\<bar>of_int (rhe (x / ulp x)) - x / ulp x\<bar> * ulp x \<le> 1/2 * ulp x"
    by (rule mult_right_mono) simp
  moreover have "\<bar>of_int (rhe (x / ulp x)) - x / ulp x\<bar> * ulp x
      = \<bar>of_int (rhe (x / ulp x)) * ulp x - x\<bar>"
    by (rule abs_scale) simp
  ultimately show ?thesis using False by (simp add: roundReal_def)
qed

lemma roundReal_nonneg: "0 \<le> x \<Longrightarrow> 0 \<le> roundReal x"
proof -
  assume "0 \<le> x"
  then have "0 \<le> rhe (x / ulp x)" by (intro rhe_ge_int) simp
  then show ?thesis by (simp add: roundReal_def)
qed

lemma roundReal_nonpos: "x \<le> 0 \<Longrightarrow> roundReal x \<le> 0"
  using roundReal_nonneg[of "- x"] by (simp add: roundReal_uminus)

lemma binade:
  assumes "0 < x"
  shows "2 powr of_int \<lfloor>log 2 x\<rfloor> \<le> x" "x < 2 powr of_int (\<lfloor>log 2 x\<rfloor> + 1)"
  using floor_log_eq_powr_iff[of x 2 "\<lfloor>log 2 x\<rfloor>"] assms by simp_all


lemma ulp_divide: "2 powr of_int e / ulp x = 2 powr of_int (e - ulpExp x)"
  by (simp add: ulp_def powr_diff)

lemma quotient_upper:
  assumes "0 < x"
  shows "x / ulp x < 2 ^ 53"
proof -
  have "\<lfloor>log 2 x\<rfloor> + 1 \<le> ulpExp x + 53" using assms by (simp add: ulpExp_def)
  then have "(2::real) powr of_int (\<lfloor>log 2 x\<rfloor> + 1) \<le> 2 powr of_int (ulpExp x + 53)"
    by simp
  with binade(2)[OF assms] have "x < 2 powr of_int (ulpExp x + 53)" by linarith
  then have "x / ulp x < 2 powr of_int (ulpExp x + 53) / ulp x"
    by (simp add: divide_strict_right_mono)
  moreover have "2 powr of_int (ulpExp x + 53) / ulp x = 2 ^ 53"
    by (simp add: ulp_def powr_add)
  ultimately show ?thesis by simp
qed

lemma quotient_lower:
  assumes "0 < x" "- 1022 \<le> \<lfloor>log 2 x\<rfloor>"
  shows "2 ^ 52 \<le> x / ulp x"
proof -
  have e: "ulpExp x = \<lfloor>log 2 x\<rfloor> - 52" using assms by (simp add: ulpExp_def)
  from binade(1)[OF assms(1)] have "2 powr of_int \<lfloor>log 2 x\<rfloor> / ulp x \<le> x / ulp x"
    by (simp add: divide_right_mono)
  moreover have "2 powr of_int \<lfloor>log 2 x\<rfloor> / ulp x = 2 ^ 52"
    by (simp add: ulp_def e powr_diff)
  ultimately show ?thesis by simp
qed

lemma roundReal_upper:
  assumes "0 < x"
  shows "roundReal x \<le> 2 powr of_int (ulpExp x + 53)"
proof -
  have "rhe (x / ulp x) \<le> 2 ^ 53"
    using quotient_upper[OF assms] by (intro rhe_le_int) simp
  then have "real_of_int (rhe (x / ulp x)) \<le> real_of_int (2 ^ 53)" by (simp only: of_int_le_iff)
  then have "real_of_int (rhe (x / ulp x)) \<le> 2 ^ 53" by simp
  then have "real_of_int (rhe (x / ulp x)) * ulp x \<le> 2 ^ 53 * ulp x"
    by (rule mult_right_mono) simp
  also have "2 ^ 53 * ulp x = 2 powr of_int (ulpExp x + 53)"
    by (simp add: ulp_def powr_add)
  finally show ?thesis using assms by (simp add: roundReal_def)
qed

lemma roundReal_lower:
  assumes "0 < x" "- 1022 \<le> \<lfloor>log 2 x\<rfloor>"
  shows "2 powr of_int \<lfloor>log 2 x\<rfloor> \<le> roundReal x"
proof -
  have e: "ulpExp x = \<lfloor>log 2 x\<rfloor> - 52" using assms by (simp add: ulpExp_def)
  have "2 ^ 52 \<le> rhe (x / ulp x)"
    using quotient_lower[OF assms] by (intro rhe_ge_int) simp
  then have "real_of_int (2 ^ 52) \<le> real_of_int (rhe (x / ulp x))" by (simp only: of_int_le_iff)
  then have "2 ^ 52 \<le> real_of_int (rhe (x / ulp x))" by simp
  then have le: "2 ^ 52 * ulp x \<le> real_of_int (rhe (x / ulp x)) * ulp x"
    by (rule mult_right_mono) simp
  have "2 powr of_int \<lfloor>log 2 x\<rfloor> = 2 ^ 52 * ulp x"
    by (simp add: ulp_def e powr_diff)
  also have "\<dots> \<le> real_of_int (rhe (x / ulp x)) * ulp x" by (rule le)
  also have "\<dots> = roundReal x" using assms by (simp add: roundReal_def)
  finally show ?thesis .
qed

lemma ulpExp_mono: "0 < x \<Longrightarrow> x \<le> y \<Longrightarrow> ulpExp x \<le> ulpExp y"
proof -
  assume "0 < x" "x \<le> y"
  then have "log 2 x \<le> log 2 y" by simp
  then have "\<lfloor>log 2 x\<rfloor> \<le> \<lfloor>log 2 y\<rfloor>" by (rule floor_mono)
  then show ?thesis using \<open>0 < x\<close> \<open>x \<le> y\<close> by (simp add: ulpExp_def)
qed

lemma roundReal_mono_pos:
  assumes "0 < x" "x \<le> y"
  shows "roundReal x \<le> roundReal y"
proof (cases "ulpExp x = ulpExp y")
  case True
  then have u: "ulp x = ulp y" by (simp add: ulp_def)
  have "x / ulp y \<le> y / ulp y" using assms by (simp add: divide_right_mono)
  then have "real_of_int (rhe (x / ulp y)) \<le> real_of_int (rhe (y / ulp y))"
    using rhe_mono by simp
  then have "real_of_int (rhe (x / ulp y)) * ulp y \<le> real_of_int (rhe (y / ulp y)) * ulp y"
    by (rule mult_right_mono) simp
  then show ?thesis using assms by (simp add: roundReal_def u)
next
  case False
  with ulpExp_mono[OF assms] have lt: "ulpExp x < ulpExp y" by simp
  have y: "0 < y" using assms by simp
  have "- 1074 \<le> ulpExp x" by (simp add: ulpExp_def)
  with lt have ky: "- 1022 \<le> \<lfloor>log 2 y\<rfloor>" "ulpExp y = \<lfloor>log 2 y\<rfloor> - 52"
    using y by (auto simp: ulpExp_def max_def split: if_splits)
  have "roundReal x \<le> 2 powr of_int (ulpExp x + 53)" by (rule roundReal_upper[OF assms(1)])
  also have "\<dots> \<le> 2 powr of_int \<lfloor>log 2 y\<rfloor>" using lt ky(2) by simp
  also have "\<dots> \<le> roundReal y" by (rule roundReal_lower[OF y ky(1)])
  finally show ?thesis .
qed

lemma roundReal_mono: "x \<le> y \<Longrightarrow> roundReal x \<le> roundReal y"
proof -
  assume le: "x \<le> y"
  consider "0 < x" | "x \<le> 0" "0 \<le> y" | "y < 0" by linarith
  then show ?thesis
  proof cases
    case 1
    then show ?thesis using le by (rule roundReal_mono_pos)
  next
    case 2
    then show ?thesis using roundReal_nonpos[of x] roundReal_nonneg[of y] by linarith
  next
    case 3
    then have "roundReal (- y) \<le> roundReal (- x)" using le by (intro roundReal_mono_pos) simp_all
    then show ?thesis by (simp add: roundReal_uminus)
  qed
qed

lemma round64_mono: "x \<le> y \<Longrightarrow> round64 x \<le> round64 y"
proof -
  assume le: "x \<le> y"
  have m: "roundReal x \<le> roundReal y" using le by (rule roundReal_mono)
  have x0: "roundReal x \<le> 0" if "x \<le> 0" using that by (rule roundReal_nonpos)
  have y0: "0 \<le> roundReal y" if "0 \<le> y" using that by (rule roundReal_nonneg)
  have x1: "0 \<le> roundReal x" if "0 \<le> x" using that by (rule roundReal_nonneg)
  have y1: "roundReal y \<le> 0" if "y \<le> 0" using that by (rule roundReal_nonpos)
  show ?thesis
    unfolding round64_def Let_def using m x0 y0 x1 y1 le
    by (auto simp: abs_if split: if_splits; linarith)
qed


lemma round64_zero [simp]: "round64 0 = Fin 0"
  by (simp add: round64_def roundReal_def)

lemma ulpExp_eq:
  assumes "2 powr of_int k \<le> \<bar>x\<bar>" "\<bar>x\<bar> < 2 powr of_int (k + 1)" "- 1022 \<le> k"
  shows "ulpExp x = k - 52"
proof -
  have "0 < (2::real) powr of_int k" by simp
  with assms(1) have "0 < \<bar>x\<bar>" by linarith
  then have "\<lfloor>log 2 \<bar>x\<bar>\<rfloor> = k"
    using assms(1,2) by (subst floor_log_eq_powr_iff) simp_all
  then show ?thesis using assms(3) by (simp add: ulpExp_def)
qed

lemma round64_eval:
  assumes "2 powr of_int k \<le> \<bar>x\<bar>" "\<bar>x\<bar> < 2 powr of_int (k + 1)" "- 1022 \<le> k"
    and "rhe (x / 2 powr of_int (k - 52)) = n"
    and "\<bar>real_of_int n * 2 powr of_int (k - 52)\<bar> < 2 ^ 1024"
  shows "round64 x = Fin (of_int n * 2 powr of_int (k - 52))"
proof -
  have e: "ulpExp x = k - 52" using assms(1-3) by (rule ulpExp_eq)
  have "0 < (2::real) powr of_int k" by simp
  with assms(1) have "x \<noteq> 0" by auto
  then have "roundReal x = of_int n * 2 powr of_int (k - 52)"
    using assms(4) by (simp add: roundReal_def ulp_def e)
  then show ?thesis using assms(5) by (simp add: round64_def)
qed

lemma round64_exact:
  assumes x: "x = of_int n * 2 powr of_int j"
    and n: "\<bar>n\<bar> < 2 ^ 53" and j: "- 1074 \<le> j" and fin: "\<bar>x\<bar> < 2 ^ 1024"
  shows "round64 x = Fin x"
proof (cases "x = 0")
  case True
  then show ?thesis by simp
next
  case False
  have le: "ulpExp x \<le> j"
  proof (cases "\<lfloor>log 2 \<bar>x\<bar>\<rfloor> \<le> - 1022")
    case True
    then show ?thesis using j by (simp add: ulpExp_def)
  next
    case False
    have "real_of_int \<bar>n\<bar> < 2 ^ 53" using n by (metis of_int_less_iff of_int_numeral of_int_power)
    then have "\<bar>x\<bar> < 2 ^ 53 * 2 powr of_int j"
      unfolding x by (simp add: abs_mult)
    also have "\<dots> = 2 powr of_int (j + 53)" by (simp add: powr_add)
    finally have "\<bar>x\<bar> < 2 powr of_int (j + 53)" .
    moreover have "2 powr of_int \<lfloor>log 2 \<bar>x\<bar>\<rfloor> \<le> \<bar>x\<bar>"
      using \<open>x \<noteq> 0\<close> by (intro binade) simp
    ultimately have "(2::real) powr of_int \<lfloor>log 2 \<bar>x\<bar>\<rfloor> < 2 powr of_int (j + 53)" by linarith
    then have "\<lfloor>log 2 \<bar>x\<bar>\<rfloor> < j + 53" by simp
    then show ?thesis using False by (simp add: ulpExp_def)
  qed
  then obtain d :: nat where d: "j = ulpExp x + int d"
    by (metis zle_iff_zadd)
  have "x / ulp x = of_int n * (2 powr of_int j / ulp x)" by (simp add: x)
  also have "2 powr of_int j / ulp x = 2 ^ d"
    by (simp add: ulp_def d powr_add powr_realpow)
  finally have "x / ulp x = of_int (n * 2 ^ d)" by simp
  then have "rhe (x / ulp x) = n * 2 ^ d" by (simp only: rhe_of_int)
  then have "roundReal x = of_int (n * 2 ^ d) * ulp x" using \<open>x \<noteq> 0\<close> by (simp add: roundReal_def)
  also have "\<dots> = of_int n * (2 ^ d * ulp x)" by simp
  also have "2 ^ d * ulp x = 2 powr of_int j" by (simp add: ulp_def d powr_add powr_realpow)
  finally have "roundReal x = x" by (simp add: x)
  then show ?thesis using fin by (simp add: round64_def)
qed

lemma round64_near:
  assumes "\<bar>x\<bar> < 2 powr of_int (K + 1)" "- 1022 \<le> K" "K \<le> 1022"
  shows "\<exists>y. round64 x = Fin y \<and> \<bar>y - x\<bar> \<le> 2 powr of_int (K - 53)"
proof (cases "x = 0")
  case True
  then show ?thesis by simp
next
  case False
  have "2 powr of_int \<lfloor>log 2 \<bar>x\<bar>\<rfloor> \<le> \<bar>x\<bar>" using False by (intro binade) simp
  with assms(1) have "(2::real) powr of_int \<lfloor>log 2 \<bar>x\<bar>\<rfloor> < 2 powr of_int (K + 1)" by linarith
  then have "\<lfloor>log 2 \<bar>x\<bar>\<rfloor> < K + 1" by simp
  then have "ulpExp x \<le> K - 52" using assms(2) by (simp add: ulpExp_def)
  then have "ulp x \<le> 2 powr of_int (K - 52)" by (simp add: ulp_def)
  then have "ulp x / 2 \<le> 2 powr of_int (K - 52) / 2" by simp
  also have "(2::real) powr of_int (K - 52) / 2 = 2 powr of_int (K - 53)"
    by (simp add: powr_diff)
  finally have err: "\<bar>roundReal x - x\<bar> \<le> 2 powr of_int (K - 53)"
    using roundReal_error[of x] by linarith
  have "(2::real) powr of_int (K - 53) \<le> 2 powr of_int (K + 1)" by simp
  with err assms(1) have "\<bar>roundReal x\<bar> < 2 * 2 powr of_int (K + 1)" by linarith
  also have "2 * (2::real) powr of_int (K + 1) = 2 powr of_int (K + 2)" by (simp add: powr_add)
  also have "\<dots> \<le> 2 powr of_int (1024::int)"
    by (rule powr_mono) (use assms(3) in simp_all)
  also have "\<dots> = 2 ^ 1024" by simp
  finally have "\<bar>roundReal x\<bar> < 2 ^ 1024" .
  then show ?thesis using err by (simp add: round64_def)
qed


lemma real_abs_int_bound:
  assumes "- (2 ^ 53) \<le> n" "n \<le> 2 ^ 53"
  shows "\<bar>real_of_int n\<bar> \<le> 2 ^ 53"
proof -
  have "\<bar>n\<bar> \<le> 2 ^ 53" using assms by linarith
  then have "real_of_int \<bar>n\<bar> \<le> real_of_int (2 ^ 53)" by (simp only: of_int_le_iff)
  then show ?thesis by simp
qed

lemma round64_eval_small:
  assumes "2 ^ 52 \<le> \<bar>x\<bar> * 2 ^ j" "\<bar>x\<bar> * 2 ^ j < 2 ^ 53" "j \<le> 1074"
    and "rhe (x * 2 ^ j) = n"
  shows "round64 x = Fin (of_int n / 2 ^ j)"
proof -
  define k :: int where "k = 52 - int j"
  have p: "(2::real) powr of_int (k - 52) = 1 / 2 ^ j"
    by (simp add: k_def powr_minus_divide powr_realpow)
  have p0: "(2::real) powr of_int k = 2 ^ 52 / 2 ^ j"
    by (simp add: k_def powr_diff powr_realpow)
  have p1: "(2::real) powr of_int (k + 1) = 2 ^ 53 / 2 ^ j"
    by (simp add: k_def powr_diff powr_add powr_realpow)
  have 1: "2 powr of_int k \<le> \<bar>x\<bar>" unfolding p0 using assms(1) by (simp add: field_simps)
  have 2: "\<bar>x\<bar> < 2 powr of_int (k + 1)" unfolding p1 using assms(2) by (simp add: field_simps)
  have 3: "- 1022 \<le> k" using assms(3) by (simp add: k_def)
  have 4: "rhe (x / 2 powr of_int (k - 52)) = n" unfolding p using assms(4) by simp
  have "\<bar>real_of_int n\<bar> \<le> 2 ^ 53"
  proof -
    have "\<bar>x * 2 ^ j\<bar> < 2 ^ 53" using assms(2) by (simp add: abs_mult)
    then have "- (2 ^ 53) \<le> x * 2 ^ j" "x * 2 ^ j \<le> 2 ^ 53" by linarith+
    then have "- (2 ^ 53) \<le> rhe (x * 2 ^ j)" "rhe (x * 2 ^ j) \<le> 2 ^ 53"
      by (intro rhe_ge_int rhe_le_int; simp)+
    then show ?thesis unfolding assms(4) by (rule real_abs_int_bound)
  qed
  then have "\<bar>real_of_int n * 2 powr of_int (k - 52)\<bar> \<le> 2 ^ 53 / 2 ^ j"
    unfolding p by (simp add: abs_mult field_simps)
  also have "\<dots> \<le> 2 ^ 53" by (simp add: field_simps)
  also have "\<dots> < (2::real) ^ 1024" by simp
  finally have 5: "\<bar>real_of_int n * 2 powr of_int (k - 52)\<bar> < 2 ^ 1024" .
  from round64_eval[OF 1 2 3 4 5] show ?thesis unfolding p by simp
qed


section \<open>Exact roundings and the special values\<close>

lemma round64_dyadic:
  assumes "\<bar>n\<bar> < 2 ^ 53" "j \<le> 1074"
  shows "round64 (of_int n / 2 ^ j) = Fin (of_int n / 2 ^ j)"
proof (rule round64_exact[of _ n "- int j"])
  show "real_of_int n / 2 ^ j = real_of_int n * 2 powr real_of_int (- int j)"
    by (simp add: powr_minus_divide powr_realpow)
  show "\<bar>n\<bar> < 2 ^ 53" by (rule assms(1))
  show "- 1074 \<le> - int j" using assms(2) by simp
  have "real_of_int \<bar>n\<bar> < real_of_int (2 ^ 53)" using assms(1) by (simp only: of_int_less_iff)
  then have n: "\<bar>real_of_int n\<bar> < 2 ^ 53" by simp
  have "\<bar>real_of_int n / 2 ^ j\<bar> = \<bar>real_of_int n\<bar> / 2 ^ j" by simp
  also have "\<dots> \<le> \<bar>real_of_int n\<bar> / 1"
    by (rule divide_left_mono) simp_all
  also have "\<dots> = \<bar>real_of_int n\<bar>" by simp
  also have "\<dots> < 2 ^ 53" by (rule n)
  also have "\<dots> < (2::real) ^ 1024" by simp
  finally show "\<bar>real_of_int n / 2 ^ j\<bar> < 2 ^ 1024" .
qed

lemma round64_int:
  assumes "\<bar>n\<bar> < 2 ^ 53"
  shows "round64 (of_int n) = Fin (of_int n)"
  using round64_dyadic[OF assms, of 0] by simp

lemma round64_pow2:
  assumes "j \<le> 1023"
  shows "round64 (2 ^ j) = Fin (2 ^ j)"
proof (rule round64_exact[of _ 1 "int j"])
  show "(2::real) ^ j = real_of_int 1 * 2 powr real_of_int (int j)" by (simp add: powr_realpow)
  show "\<bar>1::int\<bar> < 2 ^ 53" by simp
  show "- 1074 \<le> int j" by simp
  have "(2::real) ^ j < 2 ^ 1024" using assms by (intro power_strict_increasing) simp_all
  then show "\<bar>(2::real) ^ j\<bar> < 2 ^ 1024" by simp
qed

lemma round64_consts:
  "round64 1 = Fin 1" "round64 2 = Fin 2" "round64 3 = Fin 3" "round64 4 = Fin 4"
  "round64 5 = Fin 5" "round64 6 = Fin 6" "round64 7 = Fin 7" "round64 8 = Fin 8"
  "round64 (1/2) = Fin (1/2)" "round64 (1/4) = Fin (1/4)" "round64 (1/8) = Fin (1/8)"
  "round64 (1/16) = Fin (1/16)" "round64 (3/16) = Fin (3/16)" "round64 (9/8) = Fin (9/8)"
  "round64 (7/8) = Fin (7/8)" "round64 (1/64) = Fin (1/64)" "round64 (3/2) = Fin (3/2)"
  "round64 (5/4) = Fin (5/4)" "round64 (3/8) = Fin (3/8)" "round64 (5/8) = Fin (5/8)"
  "round64 (3/4) = Fin (3/4)"
  using round64_int[of 1] round64_int[of 2] round64_int[of 3] round64_int[of 4]
    round64_int[of 5] round64_int[of 6] round64_int[of 7] round64_int[of 8]
    round64_dyadic[of 1 1] round64_dyadic[of 1 2] round64_dyadic[of 1 3]
    round64_dyadic[of 1 4] round64_dyadic[of 3 4] round64_dyadic[of 9 3]
    round64_dyadic[of 7 3] round64_dyadic[of 1 6] round64_dyadic[of 3 1]
    round64_dyadic[of 5 2] round64_dyadic[of 3 3] round64_dyadic[of 5 3]
    round64_dyadic[of 3 2]
  by simp_all

lemma round64_fin_bounds:
  assumes "- B \<le> x" "x \<le> B" "round64 B = Fin B"
  shows "\<exists>y. round64 x = Fin y \<and> - B \<le> y \<and> y \<le> B"
proof -
  have "round64 (- B) = Fin (- B)" by (simp add: round64_uminus assms(3))
  with round64_mono[OF assms(1)] round64_mono[OF assms(2)] assms(3)
  show ?thesis by (cases "round64 x") simp_all
qed

lemma round64_ge:
  assumes "b \<le> x" "round64 b = Fin b" "round64 x = Fin y"
  shows "b \<le> y"
  using round64_mono[OF assms(1)] assms(2,3) by simp

lemma round64_le:
  assumes "x \<le> b" "round64 b = Fin b" "round64 x = Fin y"
  shows "y \<le> b"
  using round64_mono[OF assms(1)] assms(2,3) by simp

lemma NaN_plus [simp]: "x + NaN = NaN" "NaN + x = NaN"
  by (cases x; simp)+

lemma NaN_times [simp]: "x * NaN = NaN" "NaN * x = NaN"
  by (cases x; simp)+

lemma NaN_minus [simp]: "x - NaN = NaN" "NaN - x = NaN"
  by (simp_all add: minus_double_def)

lemma NaN_divide [simp]: "x / NaN = NaN" "NaN / x = NaN"
  by (cases x; simp)+

lemma NaN_compare [simp]: "\<not> x \<le> NaN" "\<not> x < NaN" "\<not> NaN \<le> x" "\<not> NaN < x"
  by (cases x; simp)+

lemma Fin_minus: "Fin x - Fin y = round64 (x - y)"
  by (simp add: minus_double_def)

lemma less_not_le: "(y :: double) < x \<Longrightarrow> \<not> x \<le> y"
  by (cases x; cases y) simp_all

lemma loop_stop:
  "\<not> r \<le> rhigh \<Longrightarrow> IntegratedI_loop lm dr u1 u2 u3 u4 rhigh r acc = Some acc"
  by (subst IntegratedI_loop.simps) simp

lemma loop_step:
  "r \<le> rhigh \<Longrightarrow>
   IntegratedI_loop lm dr u1 u2 u3 u4 rhigh r acc =
   IntegratedI_loop lm dr u1 u2 u3 u4 rhigh (r + dr) (acc + I lm r u1 u2 u3 u4 * dr * Fin 2 * r)"
  by (subst IntegratedI_loop.simps) simp

lemma dr_step:
  assumes "- (2 ^ 40) \<le> x" "x \<le> 2 ^ 40"
  shows "\<exists>y. Fin x + dr_const = Fin y \<and> x + 1 / 2 ^ 11 \<le> y \<and> y \<le> x + 1 / 2 ^ 9"
proof -
  let ?d = "1152921504606847 / 1152921504606846976 :: real"
  have "\<bar>x + ?d\<bar> < 2 ^ 41" using assms by (simp add: abs_if)
  also have "(2::real) ^ 41 = 2 powr of_int (40 + 1)" by (simp add: powr_realpow flip: powr_numeral)
  finally have "\<bar>x + ?d\<bar> < 2 powr of_int (40 + 1)" .
  from round64_near[OF this] obtain y where
    y: "round64 (x + ?d) = Fin y" "\<bar>y - (x + ?d)\<bar> \<le> 2 powr of_int (40 - 53)"
    by auto
  have "(2::real) powr of_int (40 - 53) = 1 / 2 ^ 13"
    by (simp add: powr_minus_divide flip: powr_numeral)
  with y(2) have "x + 1 / 2 ^ 11 \<le> y \<and> y \<le> x + 1 / 2 ^ 9"
    by (simp add: abs_if split: if_splits)
  with y(1) show ?thesis by (simp add: dr_const_def)
qed

section \<open>The summation loop and the coefficient vector\<close>

lemma loop_bounded_aux:
  "- (2 ^ 40) \<le> x \<Longrightarrow> h \<le> 2 ^ 40 \<Longrightarrow> h - x < real n / 2 ^ 11 \<Longrightarrow>
   \<exists>v. IntegratedI_loop lm dr_const u1 u2 u3 u4 (Fin h) (Fin x) acc = Some v \<and>
       (acc = NaN \<longrightarrow> v = NaN)"
proof (induction n arbitrary: x acc)
  case 0
  then have "\<not> Fin x \<le> Fin h" by simp
  then show ?case by (simp add: loop_stop)
next
  case (Suc n)
  show ?case
  proof (cases "x \<le> h")
    case True
    then have "x \<le> 2 ^ 40" using Suc.prems(2) by linarith
    from dr_step[OF Suc.prems(1) this] obtain y where
      y: "Fin x + dr_const = Fin y" "x + 1 / 2 ^ 11 \<le> y" "y \<le> x + 1 / 2 ^ 9" by blast
    have 1: "- (2 ^ 40) \<le> y" using y(2) Suc.prems(1) by simp
    have 2: "h - y < real n / 2 ^ 11" using y(2) Suc.prems(3) by (simp add: field_simps)
    from Suc.IH[OF 1 Suc.prems(2) 2, of "acc + I lm (Fin x) u1 u2 u3 u4 * dr_const * Fin 2 * Fin x"]
    show ?thesis using True y(1) by (auto simp: loop_step)
  next
    case False
    then show ?thesis by (simp add: loop_stop)
  qed
qed

lemma loop_bounded:
  assumes "- (2 ^ 40) \<le> x" "h \<le> 2 ^ 40"
  shows "\<exists>v. IntegratedI_loop lm dr_const u1 u2 u3 u4 (Fin h) (Fin x) acc = Some v \<and>
            (acc = NaN \<longrightarrow> v = NaN)"
proof -
  obtain n :: nat where "(h - x) * 2 ^ 11 < real n" using reals_Archimedean2 by blast
  then have "h - x < real n / 2 ^ 11" by (simp add: field_simps)
  from loop_bounded_aux[OF assms this] show ?thesis .
qed

lemma IntegratedI_bounded:
  assumes "- (2 ^ 40) \<le> x" "h \<le> 2 ^ 40"
  shows "\<exists>v. IntegratedI lm dr_const u1 u2 u3 u4 (Fin x) (Fin h) = Some v"
  using loop_bounded[OF assms] unfolding IntegratedI_def by blast

lemma square_outside:
  assumes "1 + 1 / 2 ^ 52 \<le> \<bar>x\<bar>" "\<bar>x\<bar> \<le> 2 ^ 40"
  shows "\<exists>s. square (Fin x) = Fin s \<and> 1 + 1 / 2 ^ 51 \<le> s \<and> s \<le> 2 ^ 80"
proof -
  have "(1 + 1 / 2 ^ 52) * (1 + 1 / 2 ^ 52) \<le> \<bar>x\<bar> * \<bar>x\<bar>"
    using assms(1) by (intro mult_mono) simp_all
  then have lo: "1 + 1 / 2 ^ 51 \<le> x * x" by (simp add: abs_mult_self_eq algebra_simps)
  have "\<bar>x\<bar> * \<bar>x\<bar> \<le> 2 ^ 40 * 2 ^ 40" using assms(2) by (intro mult_mono) simp_all
  then have hi: "x * x \<le> 2 ^ 80" by (simp add: abs_mult_self_eq)
  have "(0::real) \<le> x * x" by simp
  moreover have "- (2 ^ 80) \<le> (0::real)" by simp
  ultimately have "- (2 ^ 80) \<le> x * x" by (rule order_trans[rotated])
  from round64_fin_bounds[OF this hi round64_pow2] obtain s where
    s: "round64 (x * x) = Fin s" "s \<le> 2 ^ 80" by auto
  have e: "round64 (1 + 1 / 2 ^ 51) = Fin (1 + 1 / 2 ^ 51)"
    using round64_dyadic[of "2 ^ 51 + 1" 51] by (simp add: field_simps)
  from round64_ge[OF lo e s(1)] s show ?thesis by (simp add: square_def)
qed

lemma I_outside_disk:
  assumes "1 + 1 / 2 ^ 52 \<le> \<bar>x\<bar>" "\<bar>x\<bar> \<le> 2 ^ 40"
  shows "I lm (Fin x) u1 u2 u3 u4 = NaN"
proof -
  from square_outside[OF assms] obtain s where
    s: "square (Fin x) = Fin s" "1 + 1 / 2 ^ 51 \<le> s" "s \<le> 2 ^ 80" by blast
  have hi: "1 - s \<le> 2 ^ 80" using s(2) by simp
  have lo: "- (2 ^ 80) \<le> 1 - s" using s(3) by simp
  from round64_fin_bounds[OF lo hi round64_pow2] obtain t where
    t: "round64 (1 - s) = Fin t" by auto
  have "round64 (1 / 2 ^ 51) = Fin (1 / 2 ^ 51)" using round64_dyadic[of 1 51] by simp
  then have e: "round64 (- (1 / 2 ^ 51)) = Fin (- (1 / 2 ^ 51))" by (simp add: round64_uminus)
  have "1 - s \<le> - (1 / 2 ^ 51)" using s(2) by simp
  from round64_le[OF this e t] have "t < 0" by simp
  then have "d_pow lm (Fin t) (1 / 4) = NaN" by simp
  then show ?thesis by (simp add: I_def Let_def s(1) Fin_minus t)
qed

lemma I_at_rim:
  "I lm (Fin 1) u1 u2 u3 u4 = Fin 1 - u1 * Fin 1 - u2 * Fin 1 - u3 * Fin 1 - u4 * Fin 1"
  by (simp add: I_def square_def Let_def Fin_minus round64_consts)

lemma at_vec_simps [simp]:
  "at_vec (x # xs) 0 = Inr x"
  "at_vec (x # xs) (Suc n) = at_vec xs n"
  "at_vec [] n = Inl OutOfRange"
  by (simp_all add: at_vec_def)

lemma packCoeffs_eq:
  "packCoeffs m =
     [Fin 1 - Fin (c1 m) - Fin (c2 m) - Fin (c3 m) - Fin (c4 m),
      Fin (c1 m), Fin (c2 m), Fin (c3 m), Fin (c4 m)]"
  by (simp add: packCoeffs_def Let_def numeral_eq_Suc)

lemma calcOmega_five:
  "calcOmega [u0, u1, u2, u3, u4] =
     Inr (Fin 0 + u0 / Fin 4 + u1 / Fin 5 + u2 / Fin 6 + u3 / Fin 7 + u4 / Fin 8)"
  by (simp add: calcOmega_def numeral_eq_Suc)
     (simp add: round64_consts flip: numeral_eq_Suc)

lemma calcOmega_packCoeffs: "\<exists>w. calcOmega (packCoeffs m) = Inr w"
  by (simp add: packCoeffs_eq calcOmega_five)

lemma I_vec_packCoeffs:
  "I_vec lm r (packCoeffs m) =
     Inr (I lm r (Fin 1 - Fin (c1 m) - Fin (c2 m) - Fin (c3 m) - Fin (c4 m))
            (Fin (c1 m)) (Fin (c2 m)) (Fin (c3 m)))"
  by (simp add: packCoeffs_eq I_vec_def numeral_eq_Suc)

lemma IntegratedI_vec_packCoeffs:
  "IntegratedI_vec lm dr (packCoeffs m) rlow rhigh =
     map_option Inr
       (IntegratedI lm dr (Fin 1 - Fin (c1 m) - Fin (c2 m) - Fin (c3 m) - Fin (c4 m))
          (Fin (c1 m)) (Fin (c2 m)) (Fin (c3 m)) rlow rhigh)"
  by (simp add: packCoeffs_eq IntegratedI_vec_def numeral_eq_Suc)

lemma sample_packCoeffs:
  "packCoeffs sampleModel = [Fin 1, Fin 0, Fin 0, Fin 0, Fin 0]"
  by (simp add: packCoeffs_eq sampleModel_def Fin_minus round64_consts)

lemma central_packCoeffs:
  "packCoeffs (centralModel\<lparr>a := x, rp := y, epoch := e\<rparr>) = [Fin 1, Fin 0, Fin 0, Fin 0, Fin 0]"
  by (simp add: packCoeffs_eq centralModel_def Fin_minus round64_consts)

lemma calcOmega_unit:
  "calcOmega [Fin 1, Fin 0, Fin 0, Fin 0, Fin 0] = Inr (Fin (1/4))"
  by (simp add: calcOmega_five round64_consts)

section \<open>The loop over the timestamps\<close>

lemma counter_bound: "unat (n :: 32 word) < 4294967296"
  using unsigned_less[of n, where ?'a = nat] by simp

lemma counter_suc:
  "unat (n :: 32 word) < l \<Longrightarrow> l < 4294967296 \<Longrightarrow> unat (n + 1) = unat n + 1"
  using unat_add_lem[of n 1] by simp

lemma counter_of_nat: "n < 4294967296 \<Longrightarrow> unat (of_nat n :: 32 word) = n"
  by (simp add: unat_of_nat)

lemma IntegratedI_vec_long:
  "4 \<le> length coeffs \<Longrightarrow>
   IntegratedI_vec lm dr coeffs rlow rhigh =
     map_option Inr
       (IntegratedI lm dr (coeffs ! 0) (coeffs ! 1) (coeffs ! 2) (coeffs ! 3) rlow rhigh)"
  unfolding IntegratedI_vec_def at_vec_def by auto


lemma loop_exit:
  "\<not> unat n < length jd \<Longrightarrow>
   GenerateSynthetic_loop lm k m dr coeffs omega jd n Flux = Some (Inr Flux)"
  by (subst GenerateSynthetic_loop.simps) simp

lemma loop_next:
  "unat n < length jd \<Longrightarrow>
   snd (timestampFlux lm k m dr coeffs omega (jd ! unat n)) = Some (Inr F) \<Longrightarrow>
   GenerateSynthetic_loop lm k m dr coeffs omega jd n Flux =
   GenerateSynthetic_loop lm k m dr coeffs omega jd (n + 1) (Flux @ [F])"
  by (subst GenerateSynthetic_loop.simps) (simp add: at_vec_def)

lemma loop_returns:
  assumes len: "length jd < 4294967296" "length fl = length jd"
    and body: "\<forall>j < length jd. snd (timestampFlux lm k m dr coeffs omega (jd ! j)) = Some (Inr (fl ! j))"
  shows "length jd - n = l \<Longrightarrow> n \<le> length jd \<Longrightarrow>
         GenerateSynthetic_loop lm k m dr coeffs omega jd (of_nat n) Flux
           = Some (Inr (Flux @ drop n fl))"
proof (induction l arbitrary: n Flux)
  case 0
  then have "n = length jd" by simp
  then show ?case using len by (simp add: loop_exit counter_of_nat)
next
  case (Suc l)
  then have n: "n < length jd" by simp
  then have u: "unat (of_nat n :: 32 word) = n" using len(1) by (simp add: counter_of_nat)
  have b: "snd (timestampFlux lm k m dr coeffs omega (jd ! unat (of_nat n :: 32 word))) = Some (Inr (fl ! n))"
    using body n u by simp
  have "length jd - Suc n = l" "Suc n \<le> length jd" using Suc.prems by simp_all
  from Suc.IH[OF this, of "Flux @ [fl ! n]"]
  have "GenerateSynthetic_loop lm k m dr coeffs omega jd (of_nat n + 1) (Flux @ [fl ! n])
          = Some (Inr (Flux @ fl ! n # drop (Suc n) fl))"
    by (simp add: add.commute)
  moreover have "fl ! n # drop (Suc n) fl = drop n fl"
    using n len(2) by (simp add: Cons_nth_drop_Suc)
  ultimately show ?case using loop_next[of "of_nat n" jd, OF _ b] n u
    by (simp add: add.commute)
qed

lemma loop_returned:
  assumes "GenerateSynthetic_loop lm k m dr coeffs omega jd n Flux = Some (Inr fl)"
  shows "length jd < 4294967296 \<and>
         (\<exists>gs. fl = Flux @ gs \<and> length gs = length jd - unat n \<and>
            (\<forall>j < length gs.
               snd (timestampFlux lm k m dr coeffs omega (jd ! (unat n + j))) = Some (Inr (gs ! j))))"
proof -
  let ?P = "\<lambda>lm k m dr coeffs omega jd (n :: 32 word) Flux (y :: error + double list).
     \<forall>fl. y = Inr fl \<longrightarrow> length jd < 4294967296 \<and>
         (\<exists>gs. fl = Flux @ gs \<and> length gs = length jd - unat n \<and>
            (\<forall>j < length gs.
               snd (timestampFlux lm k m dr coeffs omega (jd ! (unat n + j))) = Some (Inr (gs ! j))))"
  have "?P lm k m dr coeffs omega jd n Flux (Inr fl)"
  proof (rule GenerateSynthetic_loop.raw_induct[where P = ?P, OF _ assms])
    fix loop lm k m dr coeffs omega jd and n :: "32 word" and Flux y
    assume IH: "\<And>lm k m dr coeffs omega jd n Flux y.
                 loop lm k m dr coeffs omega jd n Flux = Some y \<Longrightarrow>
                 ?P lm k m dr coeffs omega jd n Flux y"
    assume eq: "(if unat n < length jd
      then (case at_vec jd (unat n) of
              Inl e \<Rightarrow> Some (Inl e)
            | Inr jd_i \<Rightarrow>
                (case snd (timestampFlux lm k m dr coeffs omega jd_i) of
                   None \<Rightarrow> None
                 | Some (Inl e) \<Rightarrow> Some (Inl e)
                 | Some (Inr F) \<Rightarrow> loop lm k m dr coeffs omega jd (n + 1) (Flux @ [F])))
      else Some (Inr Flux)) = Some y"
    show "?P lm k m dr coeffs omega jd n Flux y"
    proof (cases "unat n < length jd")
      case False
      then have "y = Inr Flux" using eq by simp
      moreover have "length jd < 4294967296" using False counter_bound[of n] by simp
      ultimately show ?thesis using False by simp
    next
      case True
      show ?thesis
      proof (intro allI impI)
        fix fl
        assume y: "y = Inr fl"
        have at: "at_vec jd (unat n) = Inr (jd ! unat n)" using True by (simp add: at_vec_def)
        have eq': "(case snd (timestampFlux lm k m dr coeffs omega (jd ! unat n)) of
                   None \<Rightarrow> None
                 | Some (Inl e) \<Rightarrow> Some (Inl e)
                 | Some (Inr F) \<Rightarrow> loop lm k m dr coeffs omega jd (n + 1) (Flux @ [F]))
                = Some (Inr fl)"
          using eq True unfolding at y by simp
        obtain F where
          F: "snd (timestampFlux lm k m dr coeffs omega (jd ! unat n)) = Some (Inr F)"
          and rec: "loop lm k m dr coeffs omega jd (n + 1) (Flux @ [F]) = Some (Inr fl)"
        proof (cases "snd (timestampFlux lm k m dr coeffs omega (jd ! unat n))")
          case None
          then show ?thesis using eq' by simp
        next
          case (Some r)
          then show ?thesis using eq' that by (cases r) simp_all
        qed
        from IH[OF rec] obtain gs where
          len: "length jd < 4294967296" and
          gs: "fl = (Flux @ [F]) @ gs" "length gs = length jd - unat (n + 1)"
            "\<forall>j < length gs.
               snd (timestampFlux lm k m dr coeffs omega (jd ! (unat (n + 1) + j))) = Some (Inr (gs ! j))"
          by blast
        have u: "unat (n + 1) = unat n + 1" using True len by (rule counter_suc)
        have nth: "snd (timestampFlux lm k m dr coeffs omega (jd ! (unat n + j))) = Some (Inr ((F # gs) ! j))"
          if "j < length (F # gs)" for j
        proof (cases j)
          case 0
          then show ?thesis using F by simp
        next
          case (Suc j')
          then show ?thesis using that gs(3) u by simp
        qed
        have 1: "fl = Flux @ (F # gs)" using gs(1) by simp
        have 2: "length (F # gs) = length jd - unat n" using gs(2) u True by simp
        have "\<exists>gs. fl = Flux @ gs \<and> length gs = length jd - unat n \<and>
            (\<forall>j < length gs.
               snd (timestampFlux lm k m dr coeffs omega (jd ! (unat n + j))) = Some (Inr (gs ! j)))"
          using 1 2 nth by (intro exI[of _ "F # gs"]) blast
        with len show "length jd < 4294967296 \<and>
         (\<exists>gs. fl = Flux @ gs \<and> length gs = length jd - unat n \<and>
            (\<forall>j < length gs.
               snd (timestampFlux lm k m dr coeffs omega (jd ! (unat n + j))) = Some (Inr (gs ! j))))"
          by (rule conjI)
      qed
    qed
  qed
  then show ?thesis by blast
qed



lemma run_iff_body:
  assumes w: "calcOmega (packCoeffs m) = Inr w"
  shows "GenerateSynthetic lm k jd m = Some (Inr fl) \<longleftrightarrow>
         length jd < 4294967296 \<and> length fl = length jd \<and>
         (\<forall>n < length jd.
            snd (timestampFlux lm k m dr_const (packCoeffs m) w (jd ! n)) = Some (Inr (fl ! n)))"
proof
  assume "GenerateSynthetic lm k jd m = Some (Inr fl)"
  then have "GenerateSynthetic_loop lm k m dr_const (packCoeffs m) w jd 0 [] = Some (Inr fl)"
    using w by (simp add: GenerateSynthetic_def)
  from loop_returned[OF this]
  show "length jd < 4294967296 \<and> length fl = length jd \<and>
         (\<forall>n < length jd.
            snd (timestampFlux lm k m dr_const (packCoeffs m) w (jd ! n)) = Some (Inr (fl ! n)))"
    by auto
next
  assume r: "length jd < 4294967296 \<and> length fl = length jd \<and>
         (\<forall>n < length jd.
            snd (timestampFlux lm k m dr_const (packCoeffs m) w (jd ! n)) = Some (Inr (fl ! n)))"
  then have "GenerateSynthetic_loop lm k m dr_const (packCoeffs m) w jd (of_nat 0) []
               = Some (Inr ([] @ drop 0 fl))"
    by (intro loop_returns[where l = "length jd"]) simp_all
  then show "GenerateSynthetic lm k jd m = Some (Inr fl)"
    using w by (simp add: GenerateSynthetic_def)
qed

lemma run_single:
  assumes w: "calcOmega (packCoeffs m) = Inr w"
  shows "GenerateSynthetic lm k [x] m = Some (Inr [F]) \<longleftrightarrow>
         snd (timestampFlux lm k m dr_const (packCoeffs m) w x) = Some (Inr F)"
  by (simp add: run_iff_body[OF w])

lemma run_iff:
  "GenerateSynthetic lm k jd m = Some (Inr fl) \<longleftrightarrow>
   length jd < 4294967296 \<and> length fl = length jd \<and>
   (\<forall>n < length jd. GenerateSynthetic lm k [jd ! n] m = Some (Inr [fl ! n]))"
proof -
  obtain w where w: "calcOmega (packCoeffs m) = Inr w" using calcOmega_packCoeffs by blast
  show ?thesis unfolding run_single[OF w] by (rule run_iff_body[OF w])
qed



section \<open>Symmetry, regimes and the sample inputs\<close>













lemma regimeFlux_out_of_gate:
  "\<not> (Fin (- 0.25) < phase \<and> phase < Fin 0.25) \<Longrightarrow>
   regimeFlux lm dr coeffs omega p z phase = ([], Some (Inr (Fin 1)))"
  unfolding regimeFlux_def by (rule if_not_P)

lemma order_through_one:
  "c \<le> Fin 1 \<Longrightarrow> Fin 1 \<le> b \<Longrightarrow> b < z \<Longrightarrow> \<not> z \<le> c" for b c z :: double
  by (cases c; cases b; cases z) simp_all

lemma regimeFlux_no_overlap:
  assumes "Fin 0 \<le> p" "Fin 1 + p < z"
  shows "snd (regimeFlux lm dr coeffs omega p z phase) = Some (Inr (Fin 1))"
proof (cases p)
  case (Fin q)
  then have q: "0 \<le> q" using assms(1) by simp
  have "round64 (1 - q) \<le> round64 1" by (rule round64_mono) (use q in simp)
  then have 1: "Fin 1 - p \<le> Fin 1" by (simp add: Fin Fin_minus round64_consts)
  have "round64 1 \<le> round64 (1 + q)" by (rule round64_mono) (use q in simp)
  then have 2: "Fin 1 \<le> Fin 1 + p" by (simp add: Fin round64_consts)
  from order_through_one[OF 1 2 assms(2)] show ?thesis
    using assms(2) by (simp add: regimeFlux_def)
next
  case PInf
  then show ?thesis using assms(2) by (cases z) simp_all
next
  case NInf
  then show ?thesis using assms(1) by simp
next
  case NaN
  then show ?thesis using assms(1) by simp
qed

lemma nonfinite_times: "\<not> isFinite v \<Longrightarrow> \<not> isFinite (u * v)"
  by (cases u; cases v) simp_all

lemma nonfinite_times_PInf: "\<not> isFinite (v * PInf)"
  by (cases v) simp_all

lemma nonfinite_divide: "\<not> isFinite b \<Longrightarrow> \<not> isFinite (b / Fin c)"
  by (cases b) simp_all

lemma nonfinite_minus: "\<not> isFinite b \<Longrightarrow> \<not> isFinite (Fin 1 - b)"
  by (cases b) (simp_all add: minus_double_def)

lemma nonfinite_flux:
  "\<not> isFinite (Fin 1 - (s * (v * PInf) / Fin 4 / Fin w))"
  by (intro nonfinite_minus nonfinite_divide nonfinite_times nonfinite_times_PInf)

lemma unit_interval_bounds:
  assumes "- 1 \<le> x" "x \<le> 1"
  shows "\<exists>y. round64 x = Fin y \<and> - (2 ^ 40) \<le> y \<and> y \<le> 2 ^ 40"
proof -
  have "- (2 ^ 40) \<le> x" "x \<le> 2 ^ 40" using assms by simp_all
  from round64_fin_bounds[OF this round64_pow2] show ?thesis by simp
qed

lemma regimeFlux_zero_separation:
  assumes "4 \<le> length coeffs" "0 \<le> q" "q \<le> 1"
  shows "\<exists>F. snd (regimeFlux lm dr_const coeffs (Fin w) (Fin q) (Fin 0) (Fin 0)) = Some (Inr F) \<and>
             \<not> isFinite F"
proof -
  have "round64 0 \<le> round64 (1 - q)" by (rule round64_mono) (use assms(3) in simp)
  then have branch: "Fin 0 \<le> Fin 1 - Fin q" by (simp add: Fin_minus)
  have norm: "Fin 1 / (Fin 4 * Fin 0 * Fin q) = PInf" by simp
  from unit_interval_bounds[of "- q"] assms(2,3) obtain lo where
    lo: "Fin 0 - Fin q = Fin lo" "- (2 ^ 40) \<le> lo" by (auto simp: Fin_minus)
  from unit_interval_bounds[of q] assms(2,3) obtain hi where
    hi: "Fin 0 + Fin q = Fin hi" "hi \<le> 2 ^ 40" by auto
  from IntegratedI_bounded[OF lo(2) hi(2)] obtain v where
    "IntegratedI lm dr_const (coeffs ! 0) (coeffs ! 1) (coeffs ! 2) (coeffs ! 3) (Fin lo) (Fin hi)
       = Some v" by blast
  then have "IntegratedI_vec lm dr_const coeffs (Fin 0 - Fin q) (Fin 0 + Fin q) = Some (Inr v)"
    unfolding lo(1) hi(1) IntegratedI_vec_long[OF assms(1)] by simp
  then have "snd (regimeFlux lm dr_const coeffs (Fin w) (Fin q) (Fin 0) (Fin 0))
      = Some (Inr (Fin 1 - (square (Fin q) * (v * PInf) / Fin 4 / Fin w)))"
    unfolding regimeFlux_def Let_def norm using branch by simp
  then show ?thesis using nonfinite_flux by simp
qed

lemma M_PI_twice: "Fin 2 * M_PI / Fin 2 = M_PI"
proof -
  have "round64 (884279719003555 / 140737488355328) = Fin (884279719003555 / 140737488355328)"
    using round64_dyadic[of 884279719003555 47] by simp
  moreover have "round64 (884279719003555 / 281474976710656) = Fin (884279719003555 / 281474976710656)"
    using round64_dyadic[of 884279719003555 48] by simp
  ultimately show ?thesis by (simp add: M_PI_def)
qed

lemma central_angFreq:
  "angFreq unitConstants (centralModel\<lparr>a := x, rp := y, epoch := e\<rparr>) = M_PI"
  by (simp add: angFreq_def unitConstants_def centralModel_def round64_consts M_PI_twice)

lemma central_cosi:
  "cosi lm unitConstants (centralModel\<lparr>a := x, rp := y, epoch := e\<rparr>) = Fin 1"
  by (simp add: cosi_def unitConstants_def centralModel_def)

lemma central_separation0:
  "separation lm unitConstants (centralModel\<lparr>a := x, rp := y, epoch := e\<rparr>) (Fin 0)
     = Fin x * Fin 1 / Fin 1 * Fin 1"
  by (simp add: separation_def central_angFreq central_cosi M_PI_def square_def Let_def
      round64_consts)
     (simp add: normalisedDistance_def unitConstants_def centralModel_def round64_consts)

lemma central_foldedPhase:
  "foldedPhase unitConstants (centralModel\<lparr>a := x, rp := y, epoch := e\<rparr>) t
     = (let phase = d_fabs (d_modf (t / Fin 2)) in if phase > Fin 0.5 then phase - Fin 1 else phase)"
  by (simp add: foldedPhase_def unitConstants_def centralModel_def round64_consts)

lemma central_secondsSinceEpoch:
  "secondsSinceEpoch unitConstants (centralModel\<lparr>a := x, rp := y, epoch := e\<rparr>) jd_i
     = (jd_i - Fin e) * Fin 1"
  by (simp add: secondsSinceEpoch_def unitConstants_def centralModel_def)

lemma central_pRatio:
  "pRatio unitConstants (centralModel\<lparr>a := x, rp := y, epoch := e\<rparr>) = Fin y * Fin 1 / Fin 1"
  by (simp add: pRatio_def unitConstants_def centralModel_def round64_consts)

lemma central_id:
  "centralModel\<lparr>a := 0, rp := 1/8, epoch := 0\<rparr> = centralModel"
  by (simp add: centralModel_def)

section \<open>The intensity law and the separation zero\<close>

lemma dr_const_exact:
  "round64 (1152921504606847 / 1152921504606846976) = Fin (1152921504606847 / 1152921504606846976)"
  "round64 (1152921504606847 / 576460752303423488) = Fin (1152921504606847 / 576460752303423488)"
  using round64_dyadic[of 1152921504606847 60] round64_dyadic[of 1152921504606847 59]
  by simp_all

lemma rim_step: "\<not> Fin 1 + dr_const \<le> Fin 1"
proof -
  from dr_step[of 1] obtain y where "Fin 1 + dr_const = Fin y" "1 + 1 / 2 ^ 11 \<le> y" by auto
  then show ?thesis by simp
qed

lemma rim_sample:
  "IntegratedI lm dr_const u1 u2 u3 u4 (Fin 1) (Fin 1)
     = Some (Fin 0 + I lm (Fin 1) u1 u2 u3 u4 * dr_const * Fin 2 * Fin 1)"
  by (simp add: IntegratedI_def loop_step loop_stop[OF rim_step])

text \<open>
  Claim C1 says that the integrator evaluates \<open>1 - \<Sum> c\<^sub>n (1 - (1 - r\<^sup>2)\<^bsup>n/4\<^esup>)\<close> with the
  model's \<open>c1, ..., c4\<close>, the entries 1 to 4 of the packed vector. The code evaluates the
  law with the entries 0 to 3, at every radius, for every model and every C library. On
  the sample model (all four coefficients zero, packed vector \<open>[1, 0, 0, 0, 0]\<close>) at the
  rim \<open>r = 1\<close>: the vector overload gives the intensity 0, the law with the model's
  coefficients gives 1; the integrator over \<open>[1, 1]\<close> with the program's step, which
  samples \<open>r = 1\<close> once, returns 0 where the law gives \<open>1 \<sqdot> dr \<sqdot> 2 \<sqdot> 1\<close>, the binary64
  number nearest to 0.002.
\<close>

theorem intensity_reads_shifted_coefficients:
  "I_vec lm r (packCoeffs m) =
     Inr (I lm r (packCoeffs m ! 0) (packCoeffs m ! 1) (packCoeffs m ! 2) (packCoeffs m ! 3)) \<and>
   I_vec lm (Fin 1) (packCoeffs sampleModel) = Inr (Fin 0) \<and>
   I lm (Fin 1) (Fin (c1 sampleModel)) (Fin (c2 sampleModel)) (Fin (c3 sampleModel))
     (Fin (c4 sampleModel)) = Fin 1 \<and>
   IntegratedI_vec lm dr_const (packCoeffs sampleModel) (Fin 1) (Fin 1) = Some (Inr (Fin 0)) \<and>
   IntegratedI lm dr_const (Fin (c1 sampleModel)) (Fin (c2 sampleModel))
     (Fin (c3 sampleModel)) (Fin (c4 sampleModel)) (Fin 1) (Fin 1)
     = Some (Fin (1152921504606847 / 576460752303423488))"
proof -
  have 1: "I_vec lm r (packCoeffs m) =
     Inr (I lm r (packCoeffs m ! 0) (packCoeffs m ! 1) (packCoeffs m ! 2) (packCoeffs m ! 3))"
    by (simp add: I_vec_packCoeffs) (simp add: packCoeffs_eq)
  have shifted: "I lm (Fin 1) (Fin 1) (Fin 0) (Fin 0) (Fin 0) = Fin 0"
    by (simp add: I_at_rim Fin_minus round64_consts)
  have law: "I lm (Fin 1) (Fin 0) (Fin 0) (Fin 0) (Fin 0) = Fin 1"
    by (simp add: I_at_rim Fin_minus round64_consts)
  have 2: "I_vec lm (Fin 1) (packCoeffs sampleModel) = Inr (Fin 0)"
    by (simp add: sample_packCoeffs I_vec_def numeral_eq_Suc)
       (simp add: shifted flip: numeral_eq_Suc)
  have 3: "I lm (Fin 1) (Fin (c1 sampleModel)) (Fin (c2 sampleModel)) (Fin (c3 sampleModel))
     (Fin (c4 sampleModel)) = Fin 1"
    by (simp add: sampleModel_def law)
  have 4: "IntegratedI_vec lm dr_const (packCoeffs sampleModel) (Fin 1) (Fin 1) = Some (Inr (Fin 0))"
    by (simp add: sample_packCoeffs IntegratedI_vec_long rim_sample shifted)
       (simp add: dr_const_def)
  have 5: "IntegratedI lm dr_const (Fin (c1 sampleModel)) (Fin (c2 sampleModel))
     (Fin (c3 sampleModel)) (Fin (c4 sampleModel)) (Fin 1) (Fin 1)
     = Some (Fin (1152921504606847 / 576460752303423488))"
    by (simp add: sampleModel_def rim_sample law)
       (simp add: dr_const_def dr_const_exact)
  from 1 2 3 4 5 show ?thesis by (intro conjI)
qed

lemma nonfinite_outside: "\<not> isFinite F \<Longrightarrow> \<not> (Fin x \<le> F \<and> F \<le> Fin y)"
  by (cases F) simp_all

text \<open>
  Claim C3 expects a flux of \<open>0.99 \<plusminus> 0.002\<close> at mid-transit of a uniform disk: all four
  coefficients zero, \<open>\<Omega> = 1/4\<close>, \<open>z = 0\<close>, phase 0 and \<open>p\<close> the binary64 number nearest
  to 0.1. With every C library the full-overlap branch returns a flux that is not a finite
  number, because its normalisation is \<open>1 / (4 \<sqdot> z \<sqdot> p) = 1 / 0\<close>.
\<close>

theorem uniform_disk_mid_transit:
  "calcOmega (packCoeffs sampleModel) = Inr (Fin (1/4)) \<and>
   (\<exists>F. snd (regimeFlux lm dr_const (packCoeffs sampleModel) (Fin (1/4))
                 (Fin (3602879701896397 / 36028797018963968)) (Fin 0) (Fin 0)) = Some (Inr F) \<and>
        \<not> isFinite F \<and> \<not> (Fin 0.988 \<le> F \<and> F \<le> Fin 0.992))"
proof -
  have "4 \<le> length (packCoeffs sampleModel)" by (simp add: sample_packCoeffs)
  from regimeFlux_zero_separation[OF this, of "3602879701896397 / 36028797018963968" lm "1/4"]
  obtain F where
    "snd (regimeFlux lm dr_const (packCoeffs sampleModel) (Fin (1/4))
            (Fin (3602879701896397 / 36028797018963968)) (Fin 0) (Fin 0)) = Some (Inr F)"
    "\<not> isFinite F" by auto
  then show ?thesis using nonfinite_outside[of F]
    by (simp add: sample_packCoeffs calcOmega_unit)
qed

lemma central_omega:
  "calcOmega (packCoeffs (centralModel\<lparr>a := x, rp := y, epoch := e\<rparr>)) = Inr (Fin (1/4))"
  by (simp add: central_packCoeffs calcOmega_unit)

lemma central_timestampFlux_epoch:
  "timestampFlux lm unitConstants (centralModel\<lparr>a := x, rp := y, epoch := e\<rparr>) dr coeffs omega (Fin e)
     = regimeFlux lm dr coeffs omega (Fin y * Fin 1 / Fin 1) (Fin x * Fin 1 / Fin 1 * Fin 1) (Fin 0)"
  by (simp add: timestampFlux_def Let_def central_secondsSinceEpoch central_pRatio
      central_foldedPhase Fin_minus central_separation0 trunc_def)


section \<open>Constancy and alignment of the flux sequence\<close>

lemma central_phase_half:
  "foldedPhase unitConstants centralModel (secondsSinceEpoch unitConstants centralModel (Fin 1))
     = Fin (1/2)"
  "foldedPhase unitConstants centralModel (secondsSinceEpoch unitConstants centralModel (Fin 3))
     = Fin (1/2)"
  using central_secondsSinceEpoch[where x = 0 and y = "1/8" and e = 0 and jd_i = "Fin 1"] central_secondsSinceEpoch[where x = 0 and y = "1/8" and e = 0 and jd_i = "Fin 3"]
    central_foldedPhase[where x = 0 and y = "1/8" and e = 0 and t = "Fin 1"] central_foldedPhase[where x = 0 and y = "1/8" and e = 0 and t = "Fin 3"]
  by (simp_all add: central_id Fin_minus round64_consts trunc_def)

lemma central_omega0: "calcOmega (packCoeffs centralModel) = Inr (Fin (1/4))"
  using central_omega[where x = 0 and y = "1/8" and e = 0] by (simp add: central_id)

lemma central_quiet_run:
  "GenerateSynthetic lm unitConstants [Fin 1, Fin 3] centralModel = Some (Inr [Fin 1, Fin 1])"
proof -
  have "snd (timestampFlux lm unitConstants centralModel dr_const (packCoeffs centralModel)
               (Fin (1/4)) ([Fin 1, Fin 3] ! n)) = Some (Inr ([Fin 1, Fin 1] ! n))"
    if "n < 2" for n
  proof -
    from that consider "n = 0" | "n = 1" by linarith
    then show ?thesis
      by cases (simp_all add: timestampFlux_def Let_def central_phase_half regimeFlux_out_of_gate)
  qed
  then show ?thesis by (simp add: run_iff_body[OF central_omega0])
qed

text \<open>
  Claim C5: a timestamp whose folded phase, as the program computes it, lies outside
  \<open>(-0.25, 0.25)\<close> gets the flux exactly 1, whatever \<open>z\<close>, \<open>p\<close> and the coefficients
  are: the program run on that timestamp alone returns the one flux 1, and in every run
  that returns, the flux at the index of that timestamp is 1. (A run does not return when
  the summation loop of another timestamp never ends, or when there are \<open>2\<^sup>3\<^sup>2\<close>
  timestamps or more.)
\<close>

theorem out_of_transit_constancy:
  assumes "n < length jd"
    and "\<not> (foldedPhase k m (secondsSinceEpoch k m (jd ! n)) > Fin (- 0.25) \<and>
             foldedPhase k m (secondsSinceEpoch k m (jd ! n)) < Fin 0.25)"
  shows "GenerateSynthetic lm k [jd ! n] m = Some (Inr [Fin 1]) \<and>
         (\<forall>fl. GenerateSynthetic lm k jd m = Some (Inr fl) \<longrightarrow> fl ! n = Fin 1)"
proof -
  obtain w where w: "calcOmega (packCoeffs m) = Inr w" using calcOmega_packCoeffs by blast
  have "snd (timestampFlux lm k m dr_const (packCoeffs m) w (jd ! n)) = Some (Inr (Fin 1))"
    using assms(2) by (simp add: timestampFlux_def Let_def regimeFlux_out_of_gate)
  then have single: "GenerateSynthetic lm k [jd ! n] m = Some (Inr [Fin 1])"
    by (simp add: run_single[OF w])
  have "fl ! n = Fin 1" if "GenerateSynthetic lm k jd m = Some (Inr fl)" for fl
  proof -
    from that assms(1) have "GenerateSynthetic lm k [jd ! n] m = Some (Inr [fl ! n])"
      unfolding run_iff[of lm k jd] by blast
    with single show ?thesis by simp
  qed
  with single show ?thesis by blast
qed

theorem out_of_transit_constancy_witness:
  "1 < length [Fin 1, Fin 3] \<and>
   \<not> (foldedPhase unitConstants centralModel
         (secondsSinceEpoch unitConstants centralModel ([Fin 1, Fin 3] ! 1)) > Fin (- 0.25) \<and>
       foldedPhase unitConstants centralModel
         (secondsSinceEpoch unitConstants centralModel ([Fin 1, Fin 3] ! 1)) < Fin 0.25) \<and>
   GenerateSynthetic roundedLibm unitConstants [[Fin 1, Fin 3] ! 1] centralModel
     = Some (Inr [Fin 1]) \<and>
   GenerateSynthetic roundedLibm unitConstants [Fin 1, Fin 3] centralModel
     = Some (Inr [Fin 1, Fin 1]) \<and>
   [Fin 1, Fin 1] ! 1 = Fin 1"
proof -
  have gate: "\<not> (foldedPhase unitConstants centralModel
         (secondsSinceEpoch unitConstants centralModel ([Fin 1, Fin 3] ! 1)) > Fin (- 0.25) \<and>
       foldedPhase unitConstants centralModel
         (secondsSinceEpoch unitConstants centralModel ([Fin 1, Fin 3] ! 1)) < Fin 0.25)"
    by (simp add: central_phase_half)
  have len: "1 < length [Fin 1, Fin 3]" by simp
  from out_of_transit_constancy[OF len gate, of roundedLibm]
  have "GenerateSynthetic roundedLibm unitConstants [[Fin 1, Fin 3] ! 1] centralModel
     = Some (Inr [Fin 1])" by blast
  with gate central_quiet_run[of roundedLibm] show ?thesis by simp
qed

text \<open>
  Claim C6, amended: for a radius ratio \<open>p \<ge> 0\<close>, a timestamp for which the program's
  test \<open>z > 1 + p\<close> holds, with the sum \<open>1 + p\<close> rounded as the program computes it,
  gets the flux exactly 1, whatever the coefficients are: the program run on that
  timestamp alone returns the one flux 1, and in every run that returns, the flux at the
  index of that timestamp is 1.
\<close>

theorem no_overlap_constancy:
  assumes "n < length jd"
    and "Fin 0 \<le> pRatio k m"
    and "separation lm k m (secondsSinceEpoch k m (jd ! n)) > Fin 1 + pRatio k m"
  shows "GenerateSynthetic lm k [jd ! n] m = Some (Inr [Fin 1]) \<and>
         (\<forall>fl. GenerateSynthetic lm k jd m = Some (Inr fl) \<longrightarrow> fl ! n = Fin 1)"
proof -
  obtain w where w: "calcOmega (packCoeffs m) = Inr w" using calcOmega_packCoeffs by blast
  have "snd (timestampFlux lm k m dr_const (packCoeffs m) w (jd ! n)) = Some (Inr (Fin 1))"
    using assms(2,3) by (simp add: timestampFlux_def Let_def regimeFlux_no_overlap)
  then have single: "GenerateSynthetic lm k [jd ! n] m = Some (Inr [Fin 1])"
    by (simp add: run_single[OF w])
  have "fl ! n = Fin 1" if "GenerateSynthetic lm k jd m = Some (Inr fl)" for fl
  proof -
    from that assms(1) have "GenerateSynthetic lm k [jd ! n] m = Some (Inr [fl ! n])"
      unfolding run_iff[of lm k jd] by blast
    with single show ?thesis by simp
  qed
  with single show ?thesis by blast
qed

theorem no_overlap_constancy_witness:
  "0 < length [Fin 0] \<and>
   Fin 0 \<le> pRatio unitConstants (centralModel\<lparr>a := 2\<rparr>) \<and>
   separation roundedLibm unitConstants (centralModel\<lparr>a := 2\<rparr>)
     (secondsSinceEpoch unitConstants (centralModel\<lparr>a := 2\<rparr>) ([Fin 0] ! 0))
     > Fin 1 + pRatio unitConstants (centralModel\<lparr>a := 2\<rparr>) \<and>
   GenerateSynthetic roundedLibm unitConstants [[Fin 0] ! 0] (centralModel\<lparr>a := 2\<rparr>)
     = Some (Inr [Fin 1])"
proof -
  have m: "centralModel\<lparr>a := 2, rp := 1/8, epoch := 0\<rparr> = centralModel\<lparr>a := 2\<rparr>"
    by (simp add: centralModel_def)
  have p: "pRatio unitConstants (centralModel\<lparr>a := 2\<rparr>) = Fin (1/8)"
    using central_pRatio[where x = 2 and y = "1/8" and e = 0] by (simp add: m round64_consts)
  have t: "secondsSinceEpoch unitConstants (centralModel\<lparr>a := 2\<rparr>) (Fin 0) = Fin 0"
    using central_secondsSinceEpoch[where x = 2 and y = "1/8" and e = 0 and jd_i = "Fin 0"] by (simp add: m Fin_minus)
  have z: "separation roundedLibm unitConstants (centralModel\<lparr>a := 2\<rparr>) (Fin 0) = Fin 2"
    using central_separation0[where x = 2 and y = "1/8" and e = 0 and lm = roundedLibm] by (simp add: m round64_consts)
  have 1: "0 < length [Fin 0]" by simp
  have 2: "Fin 0 \<le> pRatio unitConstants (centralModel\<lparr>a := 2\<rparr>)" by (simp add: p)
  have 3: "separation roundedLibm unitConstants (centralModel\<lparr>a := 2\<rparr>)
     (secondsSinceEpoch unitConstants (centralModel\<lparr>a := 2\<rparr>) ([Fin 0] ! 0))
     > Fin 1 + pRatio unitConstants (centralModel\<lparr>a := 2\<rparr>)"
    by (simp add: p t z round64_consts)
  from no_overlap_constancy[OF 1 2 3] 1 2 3 show ?thesis by blast
qed

text \<open>
  Claim C9: a run returns the flux sequence \<open>fl\<close> exactly when there are fewer than
  \<open>2\<^sup>3\<^sup>2\<close> timestamps, \<open>fl\<close> has the length of the input, and for every index \<open>n\<close> the
  program run on the \<open>n\<close>-th timestamp alone, with the same model, returns the one flux
  \<open>fl ! n\<close>. So the output of a run that returns has the length and the order of the
  input, and its \<open>n\<close>-th flux is computed from the \<open>n\<close>-th timestamp and the model only.
\<close>

theorem sequence_alignment:
  "GenerateSynthetic lm k jd m = Some (Inr fl) \<longleftrightarrow>
   length jd < 2 ^ 32 \<and> length fl = length jd \<and>
   (\<forall>n < length jd. GenerateSynthetic lm k [jd ! n] m = Some (Inr [fl ! n]))"
  using run_iff[of lm k jd m fl] by simp

theorem sequence_alignment_witness:
  "GenerateSynthetic roundedLibm unitConstants [Fin 1, Fin 3] centralModel
     = Some (Inr [Fin 1, Fin 1]) \<and>
   length [Fin 1, Fin 3 :: double] < 2 ^ 32 \<and>
   length [Fin 1, Fin 1 :: double] = length [Fin 1, Fin 3 :: double] \<and>
   GenerateSynthetic roundedLibm unitConstants [[Fin 1, Fin 3] ! 0] centralModel
     = Some (Inr [[Fin 1, Fin 1] ! 0]) \<and>
   GenerateSynthetic roundedLibm unitConstants [[Fin 1, Fin 3] ! 1] centralModel
     = Some (Inr [[Fin 1, Fin 1] ! 1])"
proof -
  from sequence_alignment[of roundedLibm unitConstants "[Fin 1, Fin 3]" centralModel "[Fin 1, Fin 1]"]
    central_quiet_run[of roundedLibm]
  have all: "\<forall>n < length [Fin 1, Fin 3 :: double].
     GenerateSynthetic roundedLibm unitConstants [[Fin 1, Fin 3] ! n] centralModel
       = Some (Inr [[Fin 1, Fin 1] ! n])"
    by blast
  have "GenerateSynthetic roundedLibm unitConstants [[Fin 1, Fin 3] ! 0] centralModel
     = Some (Inr [[Fin 1, Fin 1] ! 0])"
    using all[rule_format, of 0] by simp
  moreover have "GenerateSynthetic roundedLibm unitConstants [[Fin 1, Fin 3] ! 1] centralModel
     = Some (Inr [[Fin 1, Fin 1] ! 1])"
    using all[rule_format, of 1] by simp
  ultimately show ?thesis using central_quiet_run[of roundedLibm] by simp
qed

section \<open>The bounds passed to the integrator\<close>

lemma round64_one_tie: "round64 (1 + 1 / 2 ^ 53) = Fin 1"
  using round64_eval_small[of "1 + 1 / 2 ^ 53" 52 "2 ^ 52"]
  by (simp add: rhe_def)

lemma round64_near_two:
  assumes "\<bar>x\<bar> \<le> 2"
  shows "\<exists>y. round64 x = Fin y \<and> \<bar>y - x\<bar> \<le> 1 / 2 ^ 53"
proof (cases "\<bar>x\<bar> < 2")
  case True
  then have "\<bar>x\<bar> < 2 powr of_int (0 + 1)" by simp
  from round64_near[OF this] obtain y where
    "round64 x = Fin y" "\<bar>y - x\<bar> \<le> 2 powr of_int (0 - 53)" by auto
  moreover have "(2::real) powr of_int (0 - 53) = 1 / 2 ^ 53"
    by (simp add: powr_minus_divide flip: powr_numeral)
  ultimately show ?thesis by simp
next
  case False
  with assms consider "x = 2" | "x = - 2" by (auto simp: abs_if split: if_splits)
  then show ?thesis by cases (simp_all add: round64_consts round64_uminus)
qed

lemma round64_le_one:
  assumes "x \<le> 1 + 1 / 2 ^ 53"
  shows "round64 x \<le> Fin 1"
  using round64_mono[OF assms] unfolding round64_one_tie .

text \<open>
  Claim C2, as the specification states it: at every call that the generator makes to the
  integrator, \<open>0 \<le> rlow \<le> rhigh \<le> 1\<close>. The code does not guarantee it. For the central
  model at the timestamp of the epoch, where \<open>z = 0\<close>, the generator calls the integrator
  with the bounds \<open>(-1/8, 1/8)\<close>: the lower bound is negative. And at
  \<open>p = 1.5607432564530492\<close>, \<open>z = 2.5607432564530495\<close>, where the rounded sum \<open>1 + p\<close> is
  \<open>z\<close>, the partial-overlap branch calls it with the bounds \<open>(1.0000000000000002, 1)\<close>:
  the rounded difference \<open>z - p\<close> exceeds 1, and the bounds are reversed.
\<close>

theorem integrator_bounds_counterexample:
  "fst (timestampFlux roundedLibm unitConstants centralModel dr_const (packCoeffs centralModel)
          (Fin (1/4)) (Fin 0))
     = [(Fin (- (1/8)), Fin (1/8))] \<and>
   \<not> Fin 0 \<le> Fin (- (1/8)) \<and>
   fst (regimeFlux roundedLibm dr_const (packCoeffs sampleModel) (Fin (1/4))
          (Fin (7028962748182967 / 4503599627370496)) (Fin (1441570296944183 / 562949953421312))
          (Fin 0))
     = [(Fin (4503599627370497 / 4503599627370496), Fin 1)] \<and>
   \<not> Fin (4503599627370497 / 4503599627370496) \<le> Fin 1"
proof -
  have "timestampFlux roundedLibm unitConstants centralModel dr_const (packCoeffs centralModel)
          (Fin (1/4)) (Fin 0)
     = regimeFlux roundedLibm dr_const (packCoeffs centralModel) (Fin (1/4)) (Fin (1/8)) (Fin 0) (Fin 0)"
    using central_timestampFlux_epoch[where x = 0 and y = "1/8" and e = 0 and lm = roundedLibm
        and dr = dr_const and coeffs = "packCoeffs centralModel" and omega = "Fin (1/4)"]
    by (simp add: central_id round64_consts)
  then have 1: "fst (timestampFlux roundedLibm unitConstants centralModel dr_const
          (packCoeffs centralModel) (Fin (1/4)) (Fin 0)) = [(Fin (- (1/8)), Fin (1/8))]"
    by (simp add: regimeFlux_def Let_def Fin_minus round64_consts round64_uminus)
  have e1: "round64 (2525363120812471 / 4503599627370496) = Fin (2525363120812471 / 4503599627370496)"
    using round64_dyadic[of 2525363120812471 52] by simp
  have e2: "round64 (11532562375553463 / 4503599627370496) = Fin (1441570296944183 / 562949953421312)"
    using round64_eval_small[of "11532562375553463 / 4503599627370496" 51 5766281187776732]
    by (simp add: rhe_def)
  have e3: "round64 (4503599627370497 / 4503599627370496) = Fin (4503599627370497 / 4503599627370496)"
    using round64_dyadic[of 4503599627370497 52] by simp
  have 2: "fst (regimeFlux roundedLibm dr_const (packCoeffs sampleModel) (Fin (1/4))
          (Fin (7028962748182967 / 4503599627370496)) (Fin (1441570296944183 / 562949953421312))
          (Fin 0))
     = [(Fin (4503599627370497 / 4503599627370496), Fin 1)]"
    by (simp add: regimeFlux_def Let_def Fin_minus round64_uminus e1 e2 e3)
  from 1 2 show ?thesis by simp
qed

text \<open>
  Claim C2, amended: at every call that the generator makes to the integrator with a
  finite separation \<open>z\<close> and a radius ratio \<open>0 \<le> p \<le> 1\<close>, the full-overlap call with
  the bounds \<open>(z - p, z + p)\<close> and the partial-overlap call with the bounds \<open>(z - p, 1)\<close>,
  \<open>rlow \<le> rhigh \<le> 1\<close> holds; and \<open>0 \<le> rlow\<close> holds when \<open>p \<le> z\<close>, that is when the planet
  does not cover the centre of the star.
\<close>

theorem integrator_bounds:
  assumes "0 \<le> q" "q \<le> 1"
    and "(rlow, rhigh) \<in> set (fst (regimeFlux lm dr coeffs omega (Fin q) (Fin y) phase))"
  shows "rlow \<le> rhigh \<and> rhigh \<le> Fin 1 \<and> (q \<le> y \<longrightarrow> Fin 0 \<le> rlow)"
proof -
  have low: "Fin 0 \<le> round64 (y - q)" if "q \<le> y"
    using round64_mono[of 0 "y - q"] that by simp
  consider
    (full) "Fin y \<le> Fin 1 - Fin q" "rlow = Fin y - Fin q" "rhigh = Fin y + Fin q"
    | (partial) "\<not> Fin 1 + Fin q < Fin y" "rlow = Fin y - Fin q" "rhigh = Fin 1"
    using assms(3) by (auto simp: regimeFlux_def Let_def split: if_splits)
  then show ?thesis
  proof cases
    case full
    have "\<bar>1 - q\<bar> \<le> 2" using assms(1,2) by simp
    from round64_near_two[OF this] obtain r where
      r: "round64 (1 - q) = Fin r" "\<bar>r - (1 - q)\<bar> \<le> 1 / 2 ^ 53" by blast
    have "y \<le> r" using full(1) r(1) by (simp add: Fin_minus)
    with r(2) have "y + q \<le> 1 + 1 / 2 ^ 53" by (simp add: abs_if split: if_splits)
    then have "round64 (y + q) \<le> Fin 1" by (rule round64_le_one)
    moreover have "round64 (y - q) \<le> round64 (y + q)"
      by (rule round64_mono) (use assms(1) in simp)
    ultimately show ?thesis using low by (simp add: full(2,3) Fin_minus)
  next
    case partial
    have "\<bar>1 + q\<bar> \<le> 2" using assms(1,2) by simp
    from round64_near_two[OF this] obtain s where
      s: "round64 (1 + q) = Fin s" "\<bar>s - (1 + q)\<bar> \<le> 1 / 2 ^ 53" by blast
    have "y \<le> s" using partial(1) s(1) by simp
    with s(2) have "y - q \<le> 1 + 1 / 2 ^ 53" by (simp add: abs_if split: if_splits)
    then have "round64 (y - q) \<le> Fin 1" by (rule round64_le_one)
    then show ?thesis using low by (simp add: partial(2,3) Fin_minus)
  qed
qed

theorem integrator_bounds_witness:
  "(0 :: real) \<le> 1/8 \<and> (1/8 :: real) \<le> 1 \<and>
   (Fin (3/8), Fin (5/8))
     \<in> set (fst (regimeFlux roundedLibm dr_const (packCoeffs sampleModel) (Fin (1/4))
                   (Fin (1/8)) (Fin (1/2)) (Fin 0))) \<and>
   Fin (3/8) \<le> Fin (5/8) \<and> Fin (5/8) \<le> Fin 1 \<and> (1/8 :: real) \<le> 1/2 \<and> Fin 0 \<le> Fin (3/8)"
proof -
  have "(Fin (3/8), Fin (5/8))
     \<in> set (fst (regimeFlux roundedLibm dr_const (packCoeffs sampleModel) (Fin (1/4))
                   (Fin (1/8)) (Fin (1/2)) (Fin 0)))"
    by (simp add: regimeFlux_def Let_def Fin_minus round64_consts)
  with integrator_bounds[of "1/8" "Fin (3/8)" "Fin (5/8)" roundedLibm dr_const
      "packCoeffs sampleModel" "Fin (1/4)" "1/2" "Fin 0"]
  show ?thesis by simp
qed

section \<open>No overlap and symmetry in binary64\<close>

lemma rim_integral:
  "\<exists>v. IntegratedI_vec lm dr_const (packCoeffs sampleModel) (Fin 1) (Fin 1) = Some (Inr v)"
  by (simp add: sample_packCoeffs IntegratedI_vec_long rim_sample)

text \<open>
  Claim C6, as the specification states it: whenever \<open>z > 1 + p\<close>, the flux is exactly 1.
  The code does not guarantee it, for two reasons. The program compares \<open>z\<close> with the
  rounded sum: at \<open>p = 0.1\<close> and \<open>z = 1.1\<close> (the binary64 numbers nearest to them), \<open>z\<close>
  exceeds \<open>1 + p\<close>, but the rounded sum is \<open>z\<close> itself, the program takes the
  partial-overlap branch, calls \<open>acos\<close> with an argument above 1, and returns NaN. And the
  program tests \<open>z \<le> 1 - p\<close> first: for the central model with the negative radius
  \<open>rp = -2\<close> at the timestamp of the epoch, \<open>z = 0 > 1 + p = -1\<close>, and the program
  returns NaN.
\<close>

theorem no_overlap_constancy_counterexample:
  "(2476979795053773 / 2251799813685248 :: real) > 1 + 3602879701896397 / 36028797018963968 \<and>
   snd (regimeFlux roundedLibm dr_const (packCoeffs sampleModel) (Fin (1/4))
          (Fin (3602879701896397 / 36028797018963968))
          (Fin (2476979795053773 / 2251799813685248)) (Fin 0))
     = Some (Inr NaN) \<and>
   separation roundedLibm unitConstants (centralModel\<lparr>rp := - 2\<rparr>)
     (secondsSinceEpoch unitConstants (centralModel\<lparr>rp := - 2\<rparr>) (Fin 0))
     > Fin 1 + pRatio unitConstants (centralModel\<lparr>rp := - 2\<rparr>) \<and>
   GenerateSynthetic roundedLibm unitConstants [Fin 0] (centralModel\<lparr>rp := - 2\<rparr>)
     = Some (Inr [NaN])"
proof -
  have e1: "round64 (39631676720860365 / 36028797018963968)
              = Fin (2476979795053773 / 2251799813685248)"
    using round64_eval_small[of "39631676720860365 / 36028797018963968" 52 4953959590107546]
    by (simp add: rhe_def)
  have e2: "round64 (36028797018963971 / 36028797018963968) = Fin 1"
    using round64_eval_small[of "36028797018963971 / 36028797018963968" 52 4503599627370496]
    by (simp add: rhe_def)
  have e3: "round64 (225179981368525 / 2251799813685248) = Fin (225179981368525 / 2251799813685248)"
    using round64_dyadic[of 225179981368525 51] by simp
  have e4: "round64 (3602879701896400 / 3602879701896397)
              = Fin (1125899906842625 / 1125899906842624)"
    using round64_eval_small[of "3602879701896400 / 3602879701896397" 52 4503599627370500]
    by (simp add: rhe_def)
  have "round64 (32425917317067571 / 36028797018963968) \<le> round64 1"
    by (rule round64_mono) simp
  then have e5: "\<not> Fin (2476979795053773 / 2251799813685248)
                   \<le> round64 (32425917317067571 / 36028797018963968)"
    by (cases "round64 (32425917317067571 / 36028797018963968)") (simp_all add: round64_consts)
  obtain v where v: "IntegratedI_vec roundedLibm dr_const (packCoeffs sampleModel) (Fin 1) (Fin 1)
                       = Some (Inr v)"
    using rim_integral by blast
  have 1: "snd (regimeFlux roundedLibm dr_const (packCoeffs sampleModel) (Fin (1/4))
          (Fin (3602879701896397 / 36028797018963968))
          (Fin (2476979795053773 / 2251799813685248)) (Fin 0))
     = Some (Inr NaN)"
    by (simp add: regimeFlux_def Let_def Fin_minus e1 e2 e3 e4 e5 v)
  have m: "centralModel\<lparr>a := 0, rp := - 2, epoch := 0\<rparr> = centralModel\<lparr>rp := - 2\<rparr>"
    by (simp add: centralModel_def)
  have p: "pRatio unitConstants (centralModel\<lparr>rp := - 2\<rparr>) = Fin (- 2)"
    using central_pRatio[where x = 0 and y = "- 2" and e = 0]
    by (simp add: m round64_consts round64_uminus)
  have t: "secondsSinceEpoch unitConstants (centralModel\<lparr>rp := - 2\<rparr>) (Fin 0) = Fin 0"
    using central_secondsSinceEpoch[where x = 0 and y = "- 2" and e = 0 and jd_i = "Fin 0"]
    by (simp add: m Fin_minus)
  have z: "separation roundedLibm unitConstants (centralModel\<lparr>rp := - 2\<rparr>) (Fin 0) = Fin 0"
    using central_separation0[where x = 0 and y = "- 2" and e = 0 and lm = roundedLibm]
    by (simp add: m round64_consts)
  have w: "calcOmega (packCoeffs (centralModel\<lparr>rp := - 2\<rparr>)) = Inr (Fin (1/4))"
    using central_omega[where x = 0 and y = "- 2" and e = 0] by (simp add: m)
  have c: "packCoeffs (centralModel\<lparr>rp := - 2\<rparr>) = [Fin 1, Fin 0, Fin 0, Fin 0, Fin 0]"
    using central_packCoeffs[where x = 0 and y = "- 2" and e = 0] by (simp add: m)
  have f: "timestampFlux roundedLibm unitConstants (centralModel\<lparr>rp := - 2\<rparr>) dr_const
             [Fin 1, Fin 0, Fin 0, Fin 0, Fin 0] (Fin (1/4)) (Fin 0)
     = regimeFlux roundedLibm dr_const [Fin 1, Fin 0, Fin 0, Fin 0, Fin 0] (Fin (1/4))
         (Fin (- 2)) (Fin 0) (Fin 0)"
    using central_timestampFlux_epoch[where x = 0 and y = "- 2" and e = 0 and lm = roundedLibm
        and dr = dr_const and coeffs = "[Fin 1, Fin 0, Fin 0, Fin 0, Fin 0]" and omega = "Fin (1/4)"]
    by (simp add: m round64_consts round64_uminus)
  have "snd (regimeFlux roundedLibm dr_const [Fin 1, Fin 0, Fin 0, Fin 0, Fin 0] (Fin (1/4))
         (Fin (- 2)) (Fin 0) (Fin 0)) = Some (Inr NaN)"
    by (simp add: regimeFlux_def Let_def Fin_minus round64_consts round64_uminus
        IntegratedI_vec_long IntegratedI_def loop_stop)
  then have 2: "GenerateSynthetic roundedLibm unitConstants [Fin 0] (centralModel\<lparr>rp := - 2\<rparr>)
     = Some (Inr [NaN])"
    by (simp add: run_single[OF w] c f)
  have 3: "separation roundedLibm unitConstants (centralModel\<lparr>rp := - 2\<rparr>)
     (secondsSinceEpoch unitConstants (centralModel\<lparr>rp := - 2\<rparr>) (Fin 0))
     > Fin 1 + pRatio unitConstants (centralModel\<lparr>rp := - 2\<rparr>)"
    by (simp add: p t z round64_consts round64_uminus)
  from 1 2 3 show ?thesis by simp
qed






section \<open>The integrator on bounds that violate its precondition\<close>

lemma loop_first_outside:
  assumes "1 + 1 / 2 ^ 52 \<le> \<bar>x\<bar>" "- (2 ^ 40) \<le> x" "x \<le> h" "h \<le> 2 ^ 40"
  shows "IntegratedI_loop lm dr_const u1 u2 u3 u4 (Fin h) (Fin x) acc = Some NaN"
proof -
  have x: "x \<le> 2 ^ 40" "\<bar>x\<bar> \<le> 2 ^ 40" using assms(2,3,4) by (simp_all add: abs_if)
  have nan: "I lm (Fin x) u1 u2 u3 u4 = NaN" using assms(1) x(2) by (rule I_outside_disk)
  from dr_step[OF assms(2) x(1)] obtain y where
    y: "Fin x + dr_const = Fin y" "x + 1 / 2 ^ 11 \<le> y" by blast
  have "- (2 ^ 40) \<le> y" using y(2) assms(2) by simp
  from loop_bounded[OF this assms(4), of lm u1 u2 u3 u4 NaN]
  have "IntegratedI_loop lm dr_const u1 u2 u3 u4 (Fin h) (Fin y) NaN = Some NaN" by auto
  then show ?thesis using assms(3) by (simp add: loop_step nan y(1))
qed

lemma loop_reaches_outside_aux:
  assumes h: "1 + 1 / 2 ^ 8 \<le> h" "h \<le> 2 ^ 40"
  shows "- (2 ^ 40) \<le> x \<Longrightarrow> x < 1 + 1 / 2 ^ 52 + 1 / 2 ^ 9 \<Longrightarrow> h - x < real n / 2 ^ 11 \<Longrightarrow>
         IntegratedI_loop lm dr_const u1 u2 u3 u4 (Fin h) (Fin x) acc = Some NaN"
proof (induction n arbitrary: x acc)
  case 0
  then show ?case using h(1) by simp
next
  case (Suc n)
  have xh: "x \<le> h" using Suc.prems(2) h(1) by simp
  show ?case
  proof (cases "1 + 1 / 2 ^ 52 \<le> \<bar>x\<bar>")
    case True
    then show ?thesis using Suc.prems(1) xh h(2) by (rule loop_first_outside)
  next
    case False
    have "x \<le> 2 ^ 40" using xh h(2) by linarith
    from dr_step[OF Suc.prems(1) this] obtain y where
      y: "Fin x + dr_const = Fin y" "x + 1 / 2 ^ 11 \<le> y" "y \<le> x + 1 / 2 ^ 9" by blast
    have 1: "- (2 ^ 40) \<le> y" using y(2) Suc.prems(1) by simp
    have 2: "y < 1 + 1 / 2 ^ 52 + 1 / 2 ^ 9" using y(3) False by (simp add: abs_if split: if_splits)
    have 3: "h - y < real n / 2 ^ 11" using y(2) Suc.prems(3) by (simp add: field_simps)
    from Suc.IH[OF 1 2 3] show ?thesis using xh by (simp add: loop_step y(1))
  qed
qed

lemma loop_reaches_outside:
  assumes "1 + 1 / 2 ^ 8 \<le> h" "h \<le> 2 ^ 40" "- (2 ^ 40) \<le> x" "x < 1 + 1 / 2 ^ 52"
  shows "IntegratedI_loop lm dr_const u1 u2 u3 u4 (Fin h) (Fin x) acc = Some NaN"
proof -
  obtain n :: nat where "(h - x) * 2 ^ 11 < real n" using reals_Archimedean2 by blast
  then have n: "h - x < real n / 2 ^ 11" by (simp add: field_simps)
  have "x < 1 + 1 / 2 ^ 52 + 1 / 2 ^ 9" using assms(4) by simp
  from loop_reaches_outside_aux[OF assms(1,2,3) this n] show ?thesis .
qed

lemma I_inner_rim:
  "I lm (Fin (- 1)) (Fin 0) (Fin 0) (Fin 0) (Fin 0) = Fin 1"
  by (simp add: I_def square_def Let_def Fin_minus round64_consts)

lemma inner_rim_step: "\<not> Fin (- 1) + dr_const \<le> Fin (- 1)"
proof -
  from dr_step[of "- 1"] obtain y where "Fin (- 1) + dr_const = Fin y" "- 1 + 1 / 2 ^ 11 \<le> y"
    by auto
  then show ?thesis by simp
qed

text \<open>
  Claim C4, as the specification states it: called with a violated precondition, in
  particular with \<open>rhigh < rlow\<close>, the integrator produces NaN. The code does not: at the
  bounds \<open>(1/2, 1/4)\<close> the loop condition fails at once and the integrator returns the
  initial sum, zero; and at the bounds \<open>(-1, -1)\<close>, which violate \<open>0 \<le> rlow\<close>, it returns
  \<open>-2 \<sqdot> dr\<close>, the binary64 number nearest to \<open>-0.002\<close>.
\<close>

theorem IntegratedI_reversed_bounds_counterexample:
  "Fin (1/4) < Fin (1/2) \<and>
   IntegratedI roundedLibm dr_const (Fin (1/2)) (Fin (1/8)) (Fin 0) (Fin 0) (Fin (1/2)) (Fin (1/4))
     = Some (Fin 0) \<and>
   IntegratedI roundedLibm dr_const (Fin (1/2)) (Fin (1/8)) (Fin 0) (Fin 0) (Fin (1/2)) (Fin (1/4))
     \<noteq> Some NaN \<and>
   \<not> Fin 0 \<le> Fin (- 1) \<and>
   IntegratedI roundedLibm dr_const (Fin 0) (Fin 0) (Fin 0) (Fin 0) (Fin (- 1)) (Fin (- 1))
     = Some (Fin (- (1152921504606847 / 576460752303423488)))"
proof -
  have "IntegratedI roundedLibm dr_const (Fin 0) (Fin 0) (Fin 0) (Fin 0) (Fin (- 1)) (Fin (- 1))
     = Some (Fin 0 + Fin 1 * dr_const * Fin 2 * Fin (- 1))"
    by (simp add: IntegratedI_def loop_step loop_stop[OF inner_rim_step] I_inner_rim)
  then show ?thesis
    by (simp add: IntegratedI_def loop_stop dr_const_def dr_const_exact round64_uminus)
qed

text \<open>
  Claim C4, amended: called with \<open>rhigh < rlow\<close> the integrator returns exactly zero,
  whatever the step and the coefficients are. With the program's step and bounds
  \<open>rlow \<le> rhigh\<close> of magnitude at most \<open>2\<^sup>4\<^sup>0\<close> it returns NaN when it samples outside the
  disk: when \<open>rlow\<close> is a binary64 number of magnitude above 1, or when \<open>rhigh\<close> is at
  least \<open>1 + 2\<^sup>-\<^sup>8\<close>. The first sample beyond the disk is NaN, because the base of the
  fractional powers is negative there, and the sum never recovers.
\<close>

theorem IntegratedI_violated_bounds:
  "(rhigh < rlow \<longrightarrow> IntegratedI lm dr u1 u2 u3 u4 rlow rhigh = Some (Fin 0)) \<and>
   (- (2 ^ 40) \<le> x \<and> x \<le> h \<and> h \<le> 2 ^ 40 \<and> (1 + 1 / 2 ^ 52 \<le> \<bar>x\<bar> \<or> 1 + 1 / 2 ^ 8 \<le> h) \<longrightarrow>
      IntegratedI lm dr_const u1 u2 u3 u4 (Fin x) (Fin h) = Some NaN)"
proof (intro conjI impI)
  assume "rhigh < rlow"
  then show "IntegratedI lm dr u1 u2 u3 u4 rlow rhigh = Some (Fin 0)"
    by (simp add: IntegratedI_def loop_stop less_not_le)
next
  assume b: "- (2 ^ 40) \<le> x \<and> x \<le> h \<and> h \<le> 2 ^ 40 \<and> (1 + 1 / 2 ^ 52 \<le> \<bar>x\<bar> \<or> 1 + 1 / 2 ^ 8 \<le> h)"
  show "IntegratedI lm dr_const u1 u2 u3 u4 (Fin x) (Fin h) = Some NaN"
  proof (cases "1 + 1 / 2 ^ 52 \<le> \<bar>x\<bar>")
    case True
    then show ?thesis using b unfolding IntegratedI_def by (intro loop_first_outside) simp_all
  next
    case False
    then have "x < 1 + 1 / 2 ^ 52" by (simp add: abs_if split: if_splits)
    moreover have "1 + 1 / 2 ^ 8 \<le> h" using b False by blast
    ultimately show ?thesis using b unfolding IntegratedI_def
      by (intro loop_reaches_outside) simp_all
  qed
qed

theorem IntegratedI_violated_bounds_witness:
  "Fin (1/4) < Fin (1/2) \<and>
   IntegratedI roundedLibm dr_const (Fin (1/2)) (Fin (1/8)) (Fin 0) (Fin 0) (Fin (1/2)) (Fin (1/4))
     = Some (Fin 0) \<and>
   - (2 ^ 40) \<le> (1/2 :: real) \<and> (1/2 :: real) \<le> 5/4 \<and> (5/4 :: real) \<le> 2 ^ 40 \<and>
   (1 + 1 / 2 ^ 8 :: real) \<le> 5/4 \<and>
   IntegratedI roundedLibm dr_const (Fin (1/2)) (Fin (1/8)) (Fin 0) (Fin 0) (Fin (1/2)) (Fin (5/4))
     = Some NaN"
  using IntegratedI_violated_bounds
    [of "Fin (1/4)" "Fin (1/2)" roundedLibm dr_const "Fin (1/2)" "Fin (1/8)" "Fin 0" "Fin 0"
        "1/2" "5/4"]
  by simp

section \<open>Conservation of the coefficients\<close>






end
